theory Spec2Isabelle
  imports Complex_Main "HOL-Library.Product_Lexorder" "HOL-Library.Sublist"
begin

unbundle bit_operations_syntax

section \<open>Outline extraction from positioned text (process\_pdfs.py)\<close>

text \<open>
  The development embeds \<^verbatim>\<open>src/Challenge_1a/process_pdfs.py\<close>: the class
  \<^verbatim>\<open>PDFOutlineExtractor\<close> and the batch function \<^verbatim>\<open>process_all_pdfs\<close>.

  Conventions of the embedding.
  \<^item> A Python \<^verbatim>\<open>str\<close> is a list of Unicode code points (\<open>nat list\<close>), so that
    \<^verbatim>\<open>len\<close> counts code points and \<^verbatim>\<open>ord(c) > 255\<close> can be asked. A literal is
    written \<open>ustr ''abc''\<close>.
  \<^item> A Python \<^verbatim>\<open>float\<close> is an IEEE 754 double (\<open>pyfloat\<close>): every product, quotient, sum
    and difference of the source is rounded to the nearest double. The numbers that the
    decoder hands over (sizes, coordinates, the page width) are finite doubles and are held
    as the reals they denote.
  \<^item> The decoded document (what the library \<^verbatim>\<open>fitz\<close> hands over) is data: a list of
    pages, each with its number, its width and its blocks of lines of spans.
  \<^item> The attribute \<^verbatim>\<open>self.body_font_size\<close> is state; the extractor is a record that
    \<^verbatim>\<open>_analyze_body_font\<close> returns updated.
  \<^item> Record fields carry a short prefix (\<open>b_\<close> for \<^verbatim>\<open>TextBlock\<close>, \<open>s_\<close> for a span,
    \<open>p_\<close> for a page, \<open>h_\<close> for a heading dictionary, \<open>o_\<close> for an outline entry).
\<close>

subsection \<open>Strings and character classes\<close>

type_synonym ustring = "nat list"

definition ustr :: "string \<Rightarrow> ustring" where
  "ustr s = map of_char s"

text \<open>
  Python's Unicode tables are not part of the repository. The classes are written out for
  the code points up to U+00FF, and whitespace (\<^verbatim>\<open>str.isspace\<close>, also the class
  \<^verbatim>\<open>\s\<close> of \<^verbatim>\<open>re\<close>) for all of Unicode. What the tables say of decimal digits,
  alphanumerics and lower-casing beyond U+00FF is a parameter of the model: every theorem
  holds for every such table.
\<close>

record unicode_db =
  wide_decimal :: "nat \<Rightarrow> bool"
  wide_alnum :: "nat \<Rightarrow> bool"
  wide_lower :: "ustring \<Rightarrow> ustring"

definition is_space :: "nat \<Rightarrow> bool" where
  "is_space c \<longleftrightarrow>
     (9 \<le> c \<and> c \<le> 13) \<or> (28 \<le> c \<and> c \<le> 32) \<or> c = 133 \<or> c = 160 \<or> c = 5760 \<or>
     (8192 \<le> c \<and> c \<le> 8202) \<or> c = 8232 \<or> c = 8233 \<or> c = 8239 \<or> c = 8287 \<or> c = 12288"

definition is_digit :: "unicode_db \<Rightarrow> nat \<Rightarrow> bool" where
  "is_digit U c \<longleftrightarrow> (if c < 256 then 48 \<le> c \<and> c \<le> 57 else wide_decimal U c)"

definition is_word :: "unicode_db \<Rightarrow> nat \<Rightarrow> bool" where
  "is_word U c \<longleftrightarrow>
     (if c < 256 then
        (48 \<le> c \<and> c \<le> 57) \<or> (65 \<le> c \<and> c \<le> 90) \<or> c = 95 \<or> (97 \<le> c \<and> c \<le> 122) \<or>
        c = 170 \<or> c = 178 \<or> c = 179 \<or> c = 181 \<or> c = 185 \<or> c = 186 \<or>
        (188 \<le> c \<and> c \<le> 190) \<or> (192 \<le> c \<and> c \<le> 214) \<or> (216 \<le> c \<and> c \<le> 246) \<or>
        (248 \<le> c \<and> c \<le> 255)
      else wide_alnum U c)"

definition latin1_lower :: "nat \<Rightarrow> nat" where
  "latin1_lower c =
     (if (65 \<le> c \<and> c \<le> 90) \<or> (192 \<le> c \<and> c \<le> 214) \<or> (216 \<le> c \<and> c \<le> 222)
      then c + 32 else c)"

definition lower :: "unicode_db \<Rightarrow> ustring \<Rightarrow> ustring" where
  "lower U s = (if list_all (\<lambda>c. c < 256) s then map latin1_lower s else wide_lower U s)"

definition strip :: "ustring \<Rightarrow> ustring" where
  "strip s = rev (dropWhile is_space (rev (dropWhile is_space s)))"

definition latin1_db :: unicode_db where
  "latin1_db = \<lparr>wide_decimal = (\<lambda>c. False), wide_alnum = (\<lambda>c. False), wide_lower = (\<lambda>s. s)\<rparr>"

subsection \<open>Regular expressions of \<^verbatim>\<open>re.match\<close>\<close>

text \<open>
  \<^verbatim>\<open>re.match(p, s)\<close> is used for its truth value only: it succeeds exactly when some
  prefix of \<open>s\<close> belongs to the language of \<open>p\<close>. Patterns are terms of \<open>rx\<close>; matching
  is by derivatives.
\<close>

datatype rx =
    Never
  | Empty
  | Lit nat
  | Digit
  | Space
  | Seq rx rx
  | Alt rx rx
  | Star rx

abbreviation Plus :: "rx \<Rightarrow> rx" where
  "Plus r \<equiv> Seq r (Star r)"

abbreviation Opt :: "rx \<Rightarrow> rx" where
  "Opt r \<equiv> Alt r Empty"

fun nullable :: "rx \<Rightarrow> bool" where
  "nullable Never = False"
| "nullable Empty = True"
| "nullable (Lit a) = False"
| "nullable Digit = False"
| "nullable Space = False"
| "nullable (Seq r s) = (nullable r \<and> nullable s)"
| "nullable (Alt r s) = (nullable r \<or> nullable s)"
| "nullable (Star r) = True"

fun deriv :: "unicode_db \<Rightarrow> nat \<Rightarrow> rx \<Rightarrow> rx" where
  "deriv U c Never = Never"
| "deriv U c Empty = Never"
| "deriv U c (Lit a) = (if c = a then Empty else Never)"
| "deriv U c Digit = (if is_digit U c then Empty else Never)"
| "deriv U c Space = (if is_space c then Empty else Never)"
| "deriv U c (Seq r s) =
     (if nullable r then Alt (Seq (deriv U c r) s) (deriv U c s) else Seq (deriv U c r) s)"
| "deriv U c (Alt r s) = Alt (deriv U c r) (deriv U c s)"
| "deriv U c (Star r) = Seq (deriv U c r) (Star r)"

fun re_match :: "unicode_db \<Rightarrow> rx \<Rightarrow> ustring \<Rightarrow> bool" where
  "re_match U r [] = nullable r"
| "re_match U r (c # cs) = (nullable r \<or> re_match U (deriv U c r) cs)"

text \<open>The five patterns of the source (the anchor \<^verbatim>\<open>^\<close> is implied by \<^verbatim>\<open>re.match\<close>).\<close>

definition rx_numbered :: rx where \<comment> \<open>\<^verbatim>\<open>^\d+(\.\d+)*\s\<close>\<close>
  "rx_numbered = Seq (Plus Digit) (Seq (Star (Seq (Lit 46) (Plus Digit))) Space)"

definition rx_three_groups :: rx where \<comment> \<open>\<^verbatim>\<open>^\d+\.\d+\.\d+\s+\<close>\<close>
  "rx_three_groups =
     Seq (Plus Digit) (Seq (Lit 46) (Seq (Plus Digit) (Seq (Lit 46) (Seq (Plus Digit) (Plus Space)))))"

definition rx_two_groups :: rx where \<comment> \<open>\<^verbatim>\<open>^\d+\.\d+\s+\<close>\<close>
  "rx_two_groups = Seq (Plus Digit) (Seq (Lit 46) (Seq (Plus Digit) (Plus Space)))"

definition rx_one_group :: rx where \<comment> \<open>\<^verbatim>\<open>^\d+\s+\<close>\<close>
  "rx_one_group = Seq (Plus Digit) (Plus Space)"

definition rx_list_marker :: rx where \<comment> \<open>\<^verbatim>\<open>^\d+[\).]?\s+\<close>\<close>
  "rx_list_marker = Seq (Plus Digit) (Seq (Opt (Alt (Lit 41) (Lit 46))) (Plus Space))"

subsection \<open>Floating-point numbers\<close>

text \<open>
  A value of type \<^verbatim>\<open>float\<close>: a finite double, given by the real number it denotes, an
  infinity or NaN. The two zeros are one value: no operation of the source tells them apart
  (they compare equal, both are false as a condition, and no division has a zero divisor).
\<close>

datatype pyfloat = Fin real | PInf | NInf | NaN

definition round_half_even :: "real \<Rightarrow> int" where
  "round_half_even y =
     (let n = \<lfloor>y\<rfloor>; f = y - of_int n in
      if f < 1 / 2 then n else if f > 1 / 2 then n + 1 else if even n then n else n + 1)"

text \<open>
  Rounding of a real number to the nearest double, ties to the even significand: 53 bits of
  significand at the exponent of the number, the exponent not below -1022 (gradual
  underflow), and an infinity when the rounded magnitude reaches \<open>2 ^ 1024\<close>.
\<close>

definition rnd :: "real \<Rightarrow> pyfloat" where
  "rnd x =
     (if x = 0 then Fin 0
      else
        let e = max \<lfloor>log 2 \<bar>x\<bar>\<rfloor> (- 1022);
            q = 2 powr (of_int e - 52);
            v = of_int (round_half_even (x / q)) * q
        in if \<bar>v\<bar> \<ge> 2 ^ 1024 then (if x > 0 then PInf else NInf) else Fin v)"

text \<open>
  The double that a decimal literal of the source denotes, such as \<^verbatim>\<open>1.05\<close>. (A literal
  is finite; the second branch is never taken for one.)
\<close>

definition dbl :: "real \<Rightarrow> real" where
  "dbl x = (case rnd x of Fin v \<Rightarrow> v | _ \<Rightarrow> x)"

fun fneg :: "pyfloat \<Rightarrow> pyfloat" where
  "fneg (Fin x) = Fin (- x)"
| "fneg PInf = NInf"
| "fneg NInf = PInf"
| "fneg NaN = NaN"

fun fabs :: "pyfloat \<Rightarrow> pyfloat" where
  "fabs (Fin x) = Fin \<bar>x\<bar>"
| "fabs PInf = PInf"
| "fabs NInf = PInf"
| "fabs NaN = NaN"

fun fadd :: "pyfloat \<Rightarrow> pyfloat \<Rightarrow> pyfloat" where
  "fadd (Fin x) (Fin y) = rnd (x + y)"
| "fadd NaN b = NaN"
| "fadd a NaN = NaN"
| "fadd PInf NInf = NaN"
| "fadd NInf PInf = NaN"
| "fadd PInf b = PInf"
| "fadd a PInf = PInf"
| "fadd NInf b = NInf"
| "fadd a NInf = NInf"

definition fsub :: "pyfloat \<Rightarrow> pyfloat \<Rightarrow> pyfloat" where
  "fsub a b = fadd a (fneg b)"

fun fmul :: "pyfloat \<Rightarrow> pyfloat \<Rightarrow> pyfloat" where
  "fmul (Fin x) (Fin y) = rnd (x * y)"
| "fmul NaN b = NaN"
| "fmul a NaN = NaN"
| "fmul (Fin x) PInf = (if x > 0 then PInf else if x < 0 then NInf else NaN)"
| "fmul (Fin x) NInf = (if x > 0 then NInf else if x < 0 then PInf else NaN)"
| "fmul PInf (Fin y) = (if y > 0 then PInf else if y < 0 then NInf else NaN)"
| "fmul NInf (Fin y) = (if y > 0 then NInf else if y < 0 then PInf else NaN)"
| "fmul PInf PInf = PInf"
| "fmul PInf NInf = NInf"
| "fmul NInf PInf = NInf"
| "fmul NInf NInf = PInf"

text \<open>Division by the constant 2, the one division of the source with a float on the left.\<close>

fun half :: "pyfloat \<Rightarrow> pyfloat" where
  "half (Fin x) = rnd (x / 2)"
| "half PInf = PInf"
| "half NInf = NInf"
| "half NaN = NaN"

text \<open>The comparisons \<^verbatim>\<open>>\<close> and \<^verbatim>\<open>>=\<close>; a comparison with NaN is false.\<close>

fun fgt :: "pyfloat \<Rightarrow> pyfloat \<Rightarrow> bool" where
  "fgt (Fin x) (Fin y) = (x > y)"
| "fgt NaN b = False"
| "fgt a NaN = False"
| "fgt a PInf = False"
| "fgt PInf b = True"
| "fgt NInf b = False"
| "fgt a NInf = True"

fun fge :: "pyfloat \<Rightarrow> pyfloat \<Rightarrow> bool" where
  "fge (Fin x) (Fin y) = (x \<ge> y)"
| "fge NaN b = False"
| "fge a NaN = False"
| "fge PInf b = True"
| "fge a PInf = False"
| "fge a NInf = True"
| "fge NInf b = False"

subsection \<open>The data of a document\<close>

record TextBlock =
  b_text :: ustring
  b_size :: real
  b_font :: ustring
  b_bold :: bool
  b_x0 :: real
  b_y0 :: real
  b_x1 :: real
  b_y1 :: real
  b_page_num :: nat

record span =
  s_text :: ustring
  s_size :: real
  s_font :: ustring
  s_flags :: int
  s_bbox :: "real \<times> real \<times> real \<times> real"

text \<open>A block of the page dictionary has lines or (an image block) has none.\<close>

type_synonym raw_block = "span list list option"

record page =
  p_number :: nat
  p_rect_width :: real
  p_blocks :: "raw_block list"

type_synonym document = "page list"

datatype level = H1 | H2 | H3

record heading =
  h_level :: level
  h_text :: ustring
  h_page :: nat
  h_y0 :: real

record PDFOutlineExtractor =
  body_font_size :: real
  font_thresholds :: "level \<Rightarrow> real"
  min_block_length :: nat

definition init :: PDFOutlineExtractor where
  "init = \<lparr>body_font_size = 0,
           font_thresholds =
             (\<lambda>l. case l of H1 \<Rightarrow> dbl (14 / 10) | H2 \<Rightarrow> dbl (12 / 10) | H3 \<Rightarrow> dbl (105 / 100)),
           min_block_length = 3\<rparr>"

subsection \<open>Heading Classifier and Level Assigner\<close>

definition is_heading :: "unicode_db \<Rightarrow> PDFOutlineExtractor \<Rightarrow> TextBlock \<Rightarrow> bool" where
  "is_heading U e block =
     (let t = strip (b_text block) in
      if length t < min_block_length e then False
      else if b_bold block \<or>
              fge (Fin (b_size block)) (fmul (Fin (body_font_size e)) (Fin (dbl (105 / 100))))
           then True
      else if re_match U rx_numbered t then True
      else if list_ex (\<lambda>c. c > 255) t then True
      else False)"

text \<open>
  The local variable \<^verbatim>\<open>size_ratio\<close> of \<^verbatim>\<open>_get_level\<close>: the rounded quotient, taken
  when the body font size is not zero, and \<^verbatim>\<open>1.0\<close> otherwise.
\<close>

definition size_ratio :: "PDFOutlineExtractor \<Rightarrow> TextBlock \<Rightarrow> pyfloat" where
  "size_ratio e block =
     (if body_font_size e \<noteq> 0 then rnd (b_size block / body_font_size e) else Fin 1)"

definition get_level :: "unicode_db \<Rightarrow> PDFOutlineExtractor \<Rightarrow> TextBlock \<Rightarrow> level option" where
  "get_level U e block =
     (let t = strip (b_text block) in
      if re_match U rx_three_groups t then Some H3
      else if re_match U rx_two_groups t then Some H2
      else if re_match U rx_one_group t then Some H1
      else if fge (size_ratio e block) (Fin (font_thresholds e H1)) then Some H1
      else if fge (size_ratio e block) (Fin (font_thresholds e H2)) then Some H2
      else if fge (size_ratio e block) (Fin (font_thresholds e H3)) \<or> b_bold block then Some H3
      else None)"

subsection \<open>Span Collector\<close>

text \<open>
  The loop over the spans of one line: \<open>line_text\<close> grows by each usable span's trimmed
  text and a space, \<open>span_props\<close> keeps the first usable span.
\<close>

fun collect_spans :: "span list \<Rightarrow> ustring \<times> span option \<Rightarrow> ustring \<times> span option" where
  "collect_spans [] st = st"
| "collect_spans (sp # sps) (line_text, span_props) =
     (let t = strip (s_text sp) in
      if t = [] \<or> length t < 2 then collect_spans sps (line_text, span_props)
      else collect_spans sps
             (line_text @ t @ [32], (case span_props of None \<Rightarrow> Some sp | Some p \<Rightarrow> Some p)))"

definition line_blocks :: "page \<Rightarrow> span list \<Rightarrow> TextBlock list" where
  "line_blocks pg spans =
     (case collect_spans spans ([], None) of
        (line_text, None) \<Rightarrow> []
      | (line_text, Some span_props) \<Rightarrow>
          (if line_text = [] then []
           else (case s_bbox span_props of (bx0, by0, bx1, by1) \<Rightarrow>
             [\<lparr>b_text = strip line_text,
               b_size = s_size span_props,
               b_font = s_font span_props,
               b_bold = (s_flags span_props AND 16 \<noteq> 0),
               b_x0 = bx0, b_y0 = by0, b_x1 = bx1, b_y1 = by1,
               b_page_num = p_number pg + 1\<rparr>])))"

definition extract_text_blocks :: "page \<Rightarrow> TextBlock list" where
  "extract_text_blocks pg =
     concat (map (\<lambda>blk. case blk of None \<Rightarrow> [] | Some lns \<Rightarrow> concat (map (line_blocks pg) lns))
                 (p_blocks pg))"

definition extract_all_blocks :: "document \<Rightarrow> TextBlock list" where
  "extract_all_blocks doc = concat (map extract_text_blocks doc)"

subsection \<open>Body-Font Estimator\<close>

text \<open>
  \<^verbatim>\<open>round(x, 1)\<close> rounds the exact value of \<open>x\<close> to the nearest tenth, a tie going to
  the even last digit, and returns the double nearest to that decimal.
\<close>

definition round1 :: "real \<Rightarrow> real" where
  "round1 x = dbl (of_int (round_half_even (x * 10)) / 10)"

text \<open>
  \<open>font_counts\<close> is a dictionary, which keeps its keys in the order of their first
  insertion: an association list. \<open>bump\<close> is \<^verbatim>\<open>font_counts[k] += 1\<close> on the
  \<^verbatim>\<open>defaultdict(int)\<close>.
\<close>

fun bump :: "real \<Rightarrow> (real \<times> nat) list \<Rightarrow> (real \<times> nat) list" where
  "bump k [] = [(k, 1)]"
| "bump k ((k', n) # kvs) = (if k = k' then (k', n + 1) # kvs else (k', n) # bump k kvs)"

definition qualifies :: "TextBlock \<Rightarrow> bool" where
  "qualifies b \<longleftrightarrow> length (b_text b) > 5 \<and> \<not> b_bold b"

definition count_block :: "(real \<times> nat) list \<Rightarrow> TextBlock \<Rightarrow> (real \<times> nat) list" where
  "count_block font_counts b =
     (if qualifies b then bump (round1 (b_size b)) font_counts else font_counts)"

text \<open>\<^verbatim>\<open>max(items, key=...)\<close> keeps the first item whose key is maximal.\<close>

fun max_item :: "real \<times> nat \<Rightarrow> (real \<times> nat) list \<Rightarrow> real \<times> nat" where
  "max_item best [] = best"
| "max_item best (kv # kvs) = (if snd kv > snd best then max_item kv kvs else max_item best kvs)"

definition font_histogram :: "document \<Rightarrow> (real \<times> nat) list" where
  "font_histogram doc =
     foldl (\<lambda>font_counts pg. foldl count_block font_counts (extract_text_blocks pg))
           [] (take (min 3 (length doc)) doc)"

definition analyze_body_font :: "PDFOutlineExtractor \<Rightarrow> document \<Rightarrow> PDFOutlineExtractor" where
  "analyze_body_font e doc =
     (case font_histogram doc of
        [] \<Rightarrow> e\<lparr>body_font_size := 10\<rparr>
      | kv # kvs \<Rightarrow> e\<lparr>body_font_size := fst (max_item kv kvs)\<rparr>)"

subsection \<open>Outline Assembler\<close>

fun collect_headings :: "unicode_db \<Rightarrow> PDFOutlineExtractor \<Rightarrow> TextBlock list \<Rightarrow> heading list" where
  "collect_headings U e [] = []"
| "collect_headings U e (block # blocks) =
     (if is_heading U e block then
        (case get_level U e block of
           Some lv \<Rightarrow>
             \<lparr>h_level = lv, h_text = strip (b_text block), h_page = b_page_num block,
              h_y0 = b_y0 block\<rparr> # collect_headings U e blocks
         | None \<Rightarrow> collect_headings U e blocks)
      else collect_headings U e blocks)"

definition dedup_key :: "unicode_db \<Rightarrow> heading \<Rightarrow> ustring \<times> nat" where
  "dedup_key U h = (lower U (h_text h), h_page h)"

fun dedup :: "unicode_db \<Rightarrow> (ustring \<times> nat) set \<Rightarrow> heading list \<Rightarrow> heading list" where
  "dedup U seen [] = []"
| "dedup U seen (h # hs) =
     (if dedup_key U h \<in> seen then dedup U seen hs
      else h # dedup U (insert (dedup_key U h) seen) hs)"

definition sorted_headings :: "unicode_db \<Rightarrow> PDFOutlineExtractor \<Rightarrow> TextBlock list \<Rightarrow> heading list" where
  "sorted_headings U e blocks = sort_key (\<lambda>h. (h_page h, h_y0 h)) (collect_headings U e blocks)"

definition extract_headings :: "unicode_db \<Rightarrow> PDFOutlineExtractor \<Rightarrow> TextBlock list \<Rightarrow> heading list" where
  "extract_headings U e blocks = dedup U {} (sorted_headings U e blocks)"

subsection \<open>Title Selector\<close>

text \<open>
  The first substitution, \<^verbatim>\<open>re.sub(r'\b(\w+)( \1\b)+', r'\1', title)\<close>, has a
  back-reference and is modelled directly. At a position of the text, with \<open>prev\<close> the
  character before it: \<^verbatim>\<open>\b\<close> asks for a word boundary; \<^verbatim>\<open>(\w+)\<close> tries the
  prefixes of the run of word characters, the longest first; \<^verbatim>\<open>( \1\b)+\<close> takes one
  space (U+0020), the same word and a word boundary, as often as it can and at least once.
  The leftmost match is replaced by the word and the search goes on behind it; a character
  at which nothing matches is copied.
\<close>

definition head_opt :: "'a list \<Rightarrow> 'a option" where
  "head_opt s = (case s of [] \<Rightarrow> None | c # cs \<Rightarrow> Some c)"

definition word_boundary :: "unicode_db \<Rightarrow> nat option \<Rightarrow> nat option \<Rightarrow> bool" where
  "word_boundary U l r \<longleftrightarrow>
     (case l of None \<Rightarrow> False | Some c \<Rightarrow> is_word U c) \<noteq>
     (case r of None \<Rightarrow> False | Some c \<Rightarrow> is_word U c)"

definition one_rep :: "unicode_db \<Rightarrow> ustring \<Rightarrow> ustring \<Rightarrow> ustring option" where
  "one_rep U w s =
     (if prefix (32 # w) s \<and>
         word_boundary U (Some (last (32 # w))) (head_opt (drop (Suc (length w)) s))
      then Some (drop (Suc (length w)) s) else None)"

lemma one_rep_shorter: "one_rep U w s = Some s' \<Longrightarrow> length s' < length s"
  by (auto simp: one_rep_def prefix_def split: if_splits)

function more_reps :: "unicode_db \<Rightarrow> ustring \<Rightarrow> ustring \<Rightarrow> ustring" where
  "more_reps U w [] = []"
| "more_reps U w (c # cs) =
     (case one_rep U w (c # cs) of None \<Rightarrow> c # cs | Some s' \<Rightarrow> more_reps U w s')"
  by pat_completeness auto
termination
  by (relation "measure (\<lambda>(U, w, s). length s)") (auto dest: one_rep_shorter)

fun try_words :: "unicode_db \<Rightarrow> nat \<Rightarrow> ustring \<Rightarrow> (ustring \<times> ustring) option" where
  "try_words U 0 s = None"
| "try_words U (Suc n) s =
     (case one_rep U (take (Suc n) s) (drop (Suc n) s) of
        Some s' \<Rightarrow> Some (take (Suc n) s, more_reps U (take (Suc n) s) s')
      | None \<Rightarrow> try_words U n s)"

definition repeated_word_at ::
    "unicode_db \<Rightarrow> nat option \<Rightarrow> ustring \<Rightarrow> (ustring \<times> ustring) option" where
  "repeated_word_at U prev s =
     (if word_boundary U prev (head_opt s)
      then try_words U (length (takeWhile (is_word U) s)) s else None)"

lemma more_reps_le: "length (more_reps U w s) \<le> length s"
proof (induction U w s rule: more_reps.induct)
  case (1 U w)
  show ?case by simp
next
  case (2 U w c cs)
  show ?case
  proof (cases "one_rep U w (c # cs)")
    case None
    then show ?thesis by simp
  next
    case (Some s')
    with 2 one_rep_shorter[OF Some] show ?thesis by simp
  qed
qed

lemma try_words_shorter: "try_words U n s = Some (w, rest) \<Longrightarrow> length rest < length s"
proof (induction n)
  case 0
  then show ?case by simp
next
  case (Suc n)
  show ?case
  proof (cases "one_rep U (take (Suc n) s) (drop (Suc n) s)")
    case None
    with Suc show ?thesis by simp
  next
    case (Some s')
    have "length s' < length (drop (Suc n) s)" by (rule one_rep_shorter[OF Some])
    moreover have "length (more_reps U (take (Suc n) s) s') \<le> length s'" by (rule more_reps_le)
    moreover from Suc.prems Some have "rest = more_reps U (take (Suc n) s) s'" by auto
    ultimately show ?thesis by simp
  qed
qed

lemma repeated_word_at_shorter:
  "repeated_word_at U prev s = Some (w, rest) \<Longrightarrow> length rest < length s"
  by (auto simp: repeated_word_at_def split: if_splits dest: try_words_shorter)

text \<open>After a match the character before the next position is the last one of the word.\<close>

function sub_repeated :: "unicode_db \<Rightarrow> nat option \<Rightarrow> ustring \<Rightarrow> ustring" where
  "sub_repeated U prev [] = []"
| "sub_repeated U prev (c # cs) =
     (case repeated_word_at U prev (c # cs) of
        Some (w, rest) \<Rightarrow> w @ sub_repeated U (Some (last (c # w))) rest
      | None \<Rightarrow> c # sub_repeated U (Some c) cs)"
  by pat_completeness auto
termination
  by (relation "measure (\<lambda>(U, prev, s). length s)") (auto dest: repeated_word_at_shorter)

text \<open>
  The second substitution, \<^verbatim>\<open>re.sub(r'\s{2,}', ' ', title)\<close>: a run of two or more
  whitespace characters, taken as long as it is, becomes one space.
\<close>

function collapse_ws :: "ustring \<Rightarrow> ustring" where
  "collapse_ws [] = []"
| "collapse_ws (c # cs) =
     (if is_space c \<and> list_ex is_space (take 1 cs) then 32 # collapse_ws (dropWhile is_space cs)
      else c # collapse_ws cs)"
  by pat_completeness auto
termination
  by (relation "measure length") (auto simp: length_dropWhile_le le_imp_less_Suc)

definition normalize_title :: "unicode_db \<Rightarrow> ustring \<Rightarrow> ustring" where
  "normalize_title U title = collapse_ws (sub_repeated U None title)"

definition boilerplate :: "ustring set" where
  "boilerplate = {ustr ''overview'', ustr ''table of contents'', ustr ''revision history''}"

text \<open>The loop over \<open>sorted_blocks\<close>; each \<^verbatim>\<open>continue\<close> goes on with the rest.\<close>

fun scan_title :: "unicode_db \<Rightarrow> real \<Rightarrow> real \<Rightarrow> TextBlock list \<Rightarrow> ustring" where
  "scan_title U top_size page_width [] = ustr ''Document Title''"
| "scan_title U top_size page_width (b # bs) =
     (if b_y0 b > 300 then scan_title U top_size page_width bs
      else if fgt (fabs (fsub (Fin (b_size b)) (Fin top_size))) (Fin 2)
      then scan_title U top_size page_width bs
      else if re_match U rx_list_marker (strip (b_text b)) then scan_title U top_size page_width bs
      else if lower U (strip (b_text b)) \<in> boilerplate then scan_title U top_size page_width bs
      else
        let center_x = half (fadd (Fin (b_x0 b)) (Fin (b_x1 b))) in
        if fgt (fabs (fsub center_x (half (Fin page_width)))) (fmul (Fin page_width) (Fin (25 / 100)))
        then scan_title U top_size page_width bs
        else
          let title = normalize_title U (strip (b_text b)) in
          if length title > 5 then title else ustr ''Document Title'')"

datatype py_error = IndexError

text \<open>
  \<^verbatim>\<open>doc[0]\<close> raises \<^verbatim>\<open>IndexError\<close> on a document without pages; the blocks are
  an argument of their own, so the model keeps that branch.
\<close>

definition extract_title :: "unicode_db \<Rightarrow> document \<Rightarrow> TextBlock list \<Rightarrow> py_error + ustring" where
  "extract_title U doc blocks =
     (let page1_blocks = filter (\<lambda>b. b_page_num b = 1) blocks in
      if page1_blocks = [] then Inr (ustr ''Document Title'')
      else
        let sorted_blocks = sort_key (\<lambda>b. (- b_size b, b_y0 b)) page1_blocks;
            top_size = b_size (hd sorted_blocks)
        in (case doc of
              [] \<Rightarrow> Inl IndexError
            | p0 # ps \<Rightarrow> Inr (scan_title U top_size (p_rect_width p0) sorted_blocks)))"

subsection \<open>Processing one document\<close>

record outline_entry =
  o_level :: level
  o_text :: ustring
  o_page :: nat

record outline_result =
  title :: ustring
  outline :: "outline_entry list"

text \<open>The result comes with the extractor, whose body font size the call has set.\<close>

definition process_pdf ::
    "unicode_db \<Rightarrow> PDFOutlineExtractor \<Rightarrow> document \<Rightarrow> py_error + (PDFOutlineExtractor \<times> outline_result)" where
  "process_pdf U e doc =
     (let e' = analyze_body_font e doc;
          all_blocks = extract_all_blocks doc;
          headings = extract_headings U e' all_blocks
      in case extract_title U doc all_blocks of
           Inl err \<Rightarrow> Inl err
         | Inr t \<Rightarrow>
             Inr (e', \<lparr>title = t,
                       outline = map (\<lambda>h. \<lparr>o_level = h_level h, o_text = h_text h, o_page = h_page h\<rparr>)
                                     headings\<rparr>))"

subsection \<open>Batch processing\<close>

text \<open>
  \<^verbatim>\<open>str.replace(old, new)\<close> replaces the occurrences of \<open>old\<close> from left to right,
  without overlap; an empty \<open>old\<close> matches before every character and at the end.
\<close>

function replace_from :: "ustring \<Rightarrow> ustring \<Rightarrow> ustring \<Rightarrow> ustring" where
  "replace_from old new [] = []"
| "replace_from old new (c # cs) =
     (if old \<noteq> [] \<and> prefix old (c # cs)
      then new @ replace_from old new (drop (length old) (c # cs))
      else c # replace_from old new cs)"
  by pat_completeness auto
termination
  by (relation "measure (\<lambda>(old, new, s). length s)") (auto simp: neq_Nil_conv)

definition str_replace :: "ustring \<Rightarrow> ustring \<Rightarrow> ustring \<Rightarrow> ustring" where
  "str_replace old new s =
     (if old = [] then new @ concat (map (\<lambda>c. c # new) s) else replace_from old new s)"

definition is_pdf_name :: "unicode_db \<Rightarrow> ustring \<Rightarrow> bool" where
  "is_pdf_name U filename \<longleftrightarrow> suffix (ustr ''.pdf'') (lower U filename)"

definition output_name :: "ustring \<Rightarrow> ustring" where
  "output_name filename = str_replace (ustr ''.pdf'') (ustr ''.json'') filename"

text \<open>
  \<^verbatim>\<open>process_all_pdfs\<close> without its input and output: from the names of the directory
  listing, the pairs (input name, output name) of the files it processes. Both names are
  joined to their directories by \<^verbatim>\<open>os.path.join\<close>, which is left out.
\<close>

definition process_all_pdfs :: "unicode_db \<Rightarrow> ustring list \<Rightarrow> (ustring \<times> ustring) list" where
  "process_all_pdfs U listing =
     map (\<lambda>filename. (filename, output_name filename)) (filter (is_pdf_name U) listing)"

subsection \<open>Notions used to state the properties\<close>

text \<open>
  The language of a pattern, against which the derivative matcher is justified: a text
  matches when one of its prefixes is in the language.
\<close>

inductive_set star :: "ustring set \<Rightarrow> ustring set" for A :: "ustring set" where
  star_empty: "[] \<in> star A"
| star_more: "u \<in> A \<Longrightarrow> v \<in> star A \<Longrightarrow> u @ v \<in> star A"

fun lang :: "unicode_db \<Rightarrow> rx \<Rightarrow> ustring set" where
  "lang U Never = {}"
| "lang U Empty = {[]}"
| "lang U (Lit a) = {[a]}"
| "lang U Digit = {[c] | c. is_digit U c}"
| "lang U Space = {[c] | c. is_space c}"
| "lang U (Seq r s) = {u @ v | u v. u \<in> lang U r \<and> v \<in> lang U s}"
| "lang U (Alt r s) = lang U r \<union> lang U s"
| "lang U (Star r) = star (lang U r)"



definition unseen :: "unicode_db \<Rightarrow> (ustring \<times> nat) set \<Rightarrow> heading list \<Rightarrow> nat \<Rightarrow> bool" where
  "unseen U seen xs i \<longleftrightarrow> dedup_key U (xs ! i) \<notin> seen \<union> dedup_key U ` set (take i xs)"

text \<open>
  For the Body-Font Estimator: the histogram keys of the qualifying blocks of the sample, in
  the order in which the loops meet them; the histogram built from a list of keys; and the
  distinct keys of a list in the order of their first occurrence.
\<close>

definition qualifying_keys :: "document \<Rightarrow> real list" where
  "qualifying_keys doc =
     map (\<lambda>b. round1 (b_size b))
       (filter qualifies (concat (map extract_text_blocks (take (min 3 (length doc)) doc))))"

definition tally :: "real list \<Rightarrow> (real \<times> nat) list" where
  "tally keys = foldl (\<lambda>font_counts k. bump k font_counts) [] keys"

definition first_seen :: "'a list \<Rightarrow> 'a list" where
  "first_seen keys = rev (remdups (rev keys))"

text \<open>
  For the Title Selector: the acceptance conditions of a candidate, as the specification
  lists them (the two distances computed in doubles as the source computes them, and
  ``at most'' read as ``not greater''), and the title that the scan returns once it has
  accepted a block (its normalized text, or the fallback when that has at most 5 characters).
\<close>

definition acceptable :: "unicode_db \<Rightarrow> real \<Rightarrow> real \<Rightarrow> TextBlock \<Rightarrow> bool" where
  "acceptable U top_size page_width b \<longleftrightarrow>
     b_y0 b \<le> 300 \<and>
     \<not> fgt (fabs (fsub (Fin (b_size b)) (Fin top_size))) (Fin 2) \<and>
     \<not> re_match U rx_list_marker (strip (b_text b)) \<and>
     lower U (strip (b_text b)) \<notin> boilerplate \<and>
     \<not> fgt (fabs (fsub (half (fadd (Fin (b_x0 b)) (Fin (b_x1 b)))) (half (Fin page_width))))
           (fmul (Fin page_width) (Fin (25 / 100)))"

definition title_of :: "unicode_db \<Rightarrow> TextBlock \<Rightarrow> ustring" where
  "title_of U b =
     (let t = normalize_title U (strip (b_text b)) in
      if length t > 5 then t else ustr ''Document Title'')"

subsection \<open>Sample data\<close>

text \<open>A page 600 units wide and a non-bold block centred on it, used at concrete inputs.\<close>

definition sample_page :: page where
  "sample_page = \<lparr>p_number = 0, p_rect_width = 600, p_blocks = []\<rparr>"

definition sample_block :: "ustring \<Rightarrow> real \<Rightarrow> real \<Rightarrow> TextBlock" where
  "sample_block t sz y =
     \<lparr>b_text = t, b_size = sz, b_font = ustr ''Helvetica'', b_bold = False,
      b_x0 = 100, b_y0 = y, b_x1 = 500, b_y1 = y + sz, b_page_num = 1\<rparr>"

text \<open>A span of non-bold text, and a page whose lines are single such spans of given sizes.\<close>

definition sample_span :: "ustring \<Rightarrow> real \<Rightarrow> span" where
  "sample_span t sz =
     \<lparr>s_text = t, s_size = sz, s_font = ustr ''Helvetica'', s_flags = 0,
      s_bbox = (100, 72, 500, 90)\<rparr>"

definition sample_text_page :: "nat \<Rightarrow> real list \<Rightarrow> page" where
  "sample_text_page n sizes =
     \<lparr>p_number = n, p_rect_width = 600,
      p_blocks = [Some (map (\<lambda>sz. [sample_span (ustr ''Body text'') sz]) sizes)]\<rparr>"

section \<open>Properties\<close>

subsection \<open>Evaluation and basic facts\<close>

lemmas text_evals = ustr_def strip_def is_space_def is_digit_def

lemmas title_evals = normalize_title_def repeated_word_at_def one_rep_def word_boundary_def
  head_opt_def is_word_def

subsection \<open>Rounding to doubles\<close>

lemma rhe_int [simp]: "round_half_even (of_int n) = n"
  by (simp add: round_half_even_def)

lemma rhe_bounds: "\<bar>of_int (round_half_even y) - y\<bar> \<le> 1 / 2"
  unfolding round_half_even_def Let_def by (auto simp: abs_if) linarith+

lemma rnd_normal:
  assumes "2 powr (of_int e) \<le> \<bar>x\<bar>" and "\<bar>x\<bar> < 2 powr (of_int e + 1)"
    and "- 1022 \<le> e" and "e \<le> 1022"
  shows "rnd x = Fin (of_int (round_half_even (x / 2 powr (of_int e - 52))) * 2 powr (of_int e - 52))"
proof -
  have pos: "0 < \<bar>x\<bar>" using assms(1) by (smt (verit) powr_gt_zero)
  then have x0: "x \<noteq> 0" by auto
  have fl: "\<lfloor>log 2 \<bar>x\<bar>\<rfloor> = e"
    using assms(1,2) pos by (simp add: floor_log_eq_powr_iff)
  define q :: real where "q = 2 powr (of_int e - 52)"
  have q0: "q > 0" by (simp add: q_def)
  define n where "n = round_half_even (x / q)"
  have "\<bar>of_int n - x / q\<bar> \<le> 1 / 2" unfolding n_def by (rule rhe_bounds)
  then have "\<bar>of_int n :: real\<bar> \<le> \<bar>x / q\<bar> + 1 / 2" by linarith
  moreover have "\<bar>x / q\<bar> < 2 ^ 53"
  proof -
    have "\<bar>x\<bar> / q < 2 powr (of_int e + 1) / q" using assms(2) q0 by (simp add: divide_strict_right_mono)
    also have "2 powr (of_int e + 1) / q = 2 powr 53"
      unfolding q_def by (simp add: powr_diff [symmetric])
    finally show ?thesis using q0 by (simp add: abs_divide)
  qed
  ultimately have "\<bar>of_int n :: real\<bar> < 2 ^ 53 + 1" by linarith
  then have "real_of_int \<bar>n\<bar> < real_of_int (2 ^ 53 + 1)" by simp
  then have "\<bar>n\<bar> < 2 ^ 53 + 1" by (simp only: of_int_less_iff)
  then have "\<bar>n\<bar> \<le> 2 ^ 53" by simp
  then have "real_of_int \<bar>n\<bar> \<le> real_of_int (2 ^ 53)" by (simp only: of_int_le_iff)
  then have "\<bar>of_int n :: real\<bar> \<le> 2 ^ 53" by simp
  then have "\<bar>of_int n * q\<bar> \<le> 2 ^ 53 * q" using q0 by (simp add: abs_mult)
  also have "2 ^ 53 * q = 2 powr (of_int e + 1)"
  proof -
    have "(2::real) ^ 53 = 2 powr 53" by simp
    moreover have "(2::real) powr 53 * 2 powr (of_int e - 52) = 2 powr (53 + (of_int e - 52))"
      by (simp only: powr_add)
    moreover have "53 + (real_of_int e - 52) = of_int e + 1" by simp
    ultimately show ?thesis unfolding q_def by simp
  qed
  also have "\<dots> \<le> 2 powr (real_of_int 1023)"
    using assms(4) by (intro powr_mono) simp_all
  also have "\<dots> < 2 powr (real (1024 :: nat))"
    by (intro powr_less_mono) simp_all
  also have "\<dots> = 2 ^ 1024"
    by (simp only: powr_realpow zero_less_numeral)
  finally have "\<bar>of_int n * q\<bar> < 2 ^ 1024" .
  then show ?thesis
    using x0 fl assms(3) unfolding rnd_def Let_def q_def n_def by (simp add: max_def)
qed

lemma rnd_scaled:
  assumes "2 ^ 52 \<le> \<bar>x\<bar> * 2 ^ k" and "\<bar>x\<bar> * 2 ^ k < 2 ^ 53" and "k \<le> 1074"
  shows "rnd x = Fin (of_int (round_half_even (x * 2 ^ k)) / 2 ^ k)"
proof -
  define e :: int where "e = 52 - int k"
  have p: "(2::real) powr (of_int e - 52) = 1 / 2 ^ k"
    by (simp add: e_def powr_minus powr_realpow field_simps)
  have pe: "(2::real) powr (of_int e) = 2 ^ 52 / 2 ^ k"
    by (simp add: e_def powr_diff powr_realpow)
  have pe1: "(2::real) powr (of_int e + 1) = 2 ^ 53 / 2 ^ k"
    by (simp add: pe powr_add)
  have 1: "2 powr (of_int e) \<le> \<bar>x\<bar>" unfolding pe using assms(1) by (simp add: field_simps)
  have 2: "\<bar>x\<bar> < 2 powr (of_int e + 1)" unfolding pe1 using assms(2) by (simp add: field_simps)
  have 3: "- 1022 \<le> e" "e \<le> 1022" using assms(3) by (simp_all add: e_def)
  show ?thesis
    unfolding rnd_normal[OF 1 2 3] p by simp
qed

lemma rnd_exact:
  assumes "x * 2 ^ k = of_int m" and "2 ^ 52 \<le> \<bar>m\<bar>" and "\<bar>m\<bar> < 2 ^ 53" and "k \<le> 1074"
  shows "rnd x = Fin x"
proof -
  have "\<bar>x * 2 ^ k\<bar> = \<bar>real_of_int m\<bar>"
    using assms(1) by simp
  then have a: "\<bar>x\<bar> * 2 ^ k = real_of_int \<bar>m\<bar>"
    by (simp add: abs_mult)
  have 1: "2 ^ 52 \<le> \<bar>x\<bar> * 2 ^ k"
    unfolding a using assms(2) by (metis of_int_le_iff of_int_numeral of_int_power)
  have 2: "\<bar>x\<bar> * 2 ^ k < 2 ^ 53"
    unfolding a using assms(3) by (metis of_int_less_iff of_int_numeral of_int_power)
  have "x = of_int m / 2 ^ k" using assms(1) by (simp add: field_simps)
  then show ?thesis
    unfolding rnd_scaled[OF 1 2 assms(4)] assms(1) by simp
qed

lemma rnd_zero [simp]: "rnd 0 = Fin 0"
  by (simp add: rnd_def)

lemma scale_exists:
  fixes m :: int
  assumes "1 \<le> m" and "m < 2 ^ 53" and "2 ^ 53 \<le> m * 2 ^ n"
  shows "\<exists>k\<le>n. 2 ^ 52 \<le> m * 2 ^ k \<and> m * 2 ^ k < 2 ^ 53"
  using assms(3)
proof (induction n)
  case 0
  with assms(2) show ?case by simp
next
  case (Suc n)
  show ?case
  proof (cases "2 ^ 53 \<le> m * 2 ^ n")
    case True
    from Suc.IH[OF this] show ?thesis by (auto intro: le_SucI)
  next
    case False
    with Suc.prems have "2 ^ 52 \<le> m * 2 ^ n \<and> m * 2 ^ n < 2 ^ 53" by simp
    then show ?thesis by (auto intro: exI[of _ n])
  qed
qed

lemma rnd_dyadic:
  assumes "\<bar>n\<bar> < 2 ^ 53" and "j \<le> 1021"
  shows "rnd (of_int n / 2 ^ j) = Fin (of_int n / 2 ^ j)"
proof (cases "n = 0")
  case True
  then show ?thesis by simp
next
  case False
  then have 1: "1 \<le> \<bar>n\<bar>" by simp
  have "(2::int) ^ 53 \<le> \<bar>n\<bar> * 2 ^ 53" using 1 by simp
  from scale_exists[OF 1 assms(1) this] obtain k where k: "k \<le> 53"
      "2 ^ 52 \<le> \<bar>n\<bar> * 2 ^ k" "\<bar>n\<bar> * 2 ^ k < 2 ^ 53" by blast
  have a: "\<bar>n * 2 ^ k\<bar> = \<bar>n\<bar> * 2 ^ k" by (simp add: abs_mult)
  have "real_of_int n / 2 ^ j * 2 ^ (k + j) = of_int (n * 2 ^ k)"
    by (simp add: power_add)
  moreover have "2 ^ 52 \<le> \<bar>n * 2 ^ k\<bar>" "\<bar>n * 2 ^ k\<bar> < 2 ^ 53"
    unfolding a using k(2,3) by simp_all
  moreover have "k + j \<le> 1074" using k(1) assms(2) by simp
  ultimately show ?thesis by (rule rnd_exact)
qed

lemma rnd_of_int: "\<bar>n\<bar> < 2 ^ 53 \<Longrightarrow> rnd (of_int n) = Fin (of_int n)"
  using rnd_dyadic[of n 0] by simp

lemma rnd_numeral [simp]:
  "numeral w < (2 ^ 53 :: int) \<Longrightarrow> rnd (numeral w) = Fin (numeral w)"
  "numeral w < (2 ^ 53 :: int) \<Longrightarrow> rnd (- numeral w) = Fin (- numeral w)"
  "rnd 1 = Fin 1"
  "rnd (- 1) = Fin (- 1)"
  using rnd_of_int[of "numeral w"] rnd_of_int[of "- numeral w"] rnd_of_int[of 1]
    rnd_of_int[of "- 1"]
  by simp_all

text \<open>The doubles of the decimal literals that occur below.\<close>

lemma rnd_literals:
  "rnd (7 / 5) = Fin (6305039478318694 / 2 ^ 52)"
  "rnd (6 / 5) = Fin (5404319552844595 / 2 ^ 52)"
  "rnd (21 / 20) = Fin (4728779608739021 / 2 ^ 52)"
  "rnd (139999 / 100000) = Fin (6304994442322421 / 2 ^ 52)"
  "rnd (63 / 5) = Fin (7093169413108531 / 2 ^ 49)"
  "rnd (139999 / 10000) = Fin (3940621526451513 / 2 ^ 48)"
  "rnd (21 / 5) = Fin (4728779608739021 / 2 ^ 50)"
  "rnd (441 / 100) = Fin (4965218589175972 / 2 ^ 50)"
         apply (subst rnd_scaled[where k = 52], simp_all add: round_half_even_def)
      apply (subst rnd_scaled[where k = 52], simp_all add: round_half_even_def)
     apply (subst rnd_scaled[where k = 52], simp_all add: round_half_even_def)
    apply (subst rnd_scaled[where k = 52], simp_all add: round_half_even_def)
   apply (subst rnd_scaled[where k = 49], simp_all add: round_half_even_def)
  apply (subst rnd_scaled[where k = 49], simp_all add: round_half_even_def)
   apply (subst rnd_scaled[where k = 50], simp_all add: round_half_even_def)
  apply (subst rnd_scaled[where k = 50], simp_all add: round_half_even_def)
  done

lemma dbl_literals:
  "dbl (7 / 5) = 6305039478318694 / 2 ^ 52"
  "dbl (6 / 5) = 5404319552844595 / 2 ^ 52"
  "dbl (21 / 20) = 4728779608739021 / 2 ^ 52"
  "dbl (139999 / 100000) = 6304994442322421 / 2 ^ 52"
  "dbl (63 / 5) = 7093169413108531 / 2 ^ 49"
  "dbl (139999 / 10000) = 3940621526451513 / 2 ^ 48"
  "dbl (21 / 5) = 4728779608739021 / 2 ^ 50"
  "dbl (441 / 100) = 4965218589175972 / 2 ^ 50"
  by (simp_all only: dbl_def rnd_literals pyfloat.case)

text \<open>The size test of the Heading Classifier at body font sizes 10 and 9.\<close>

lemma body_threshold:
  "rnd (10 * dbl (21 / 20)) = Fin (21 / 2)"
  "rnd (9 * dbl (21 / 20)) = Fin (5319877059831399 / 2 ^ 49)"
   apply (simp add: dbl_literals, subst rnd_scaled[where k = 49], simp_all add: round_half_even_def)
  apply (simp add: dbl_literals, subst rnd_scaled[where k = 49], simp_all add: round_half_even_def)
  done

text \<open>Quotients that round to the doubles \<^verbatim>\<open>1.4\<close> and \<^verbatim>\<open>1.39999\<close>.\<close>

lemma ratio_examples:
  "rnd (14 / 10) = Fin (dbl (7 / 5))"
  "rnd (dbl (63 / 5) / 9) = Fin (dbl (7 / 5))"
  "rnd (dbl (139999 / 10000) / 10) = Fin (dbl (139999 / 100000))"
  "rnd (dbl (63 / 5) / 12) = Fin (dbl (21 / 20))"
  "rnd (dbl (21 / 5) * dbl (21 / 20)) = Fin (dbl (441 / 100))"
      apply (simp add: dbl_literals rnd_literals)
     apply (simp add: dbl_literals, subst rnd_scaled[where k = 52], simp_all add: round_half_even_def)
    apply (simp add: dbl_literals, subst rnd_scaled[where k = 52], simp_all add: round_half_even_def)
   apply (simp add: dbl_literals, subst rnd_scaled[where k = 52], simp_all add: round_half_even_def)
  apply (simp add: dbl_literals, subst rnd_scaled[where k = 50], simp_all add: round_half_even_def)
  done

lemma sample_block_sel:
  "b_text (sample_block t sz y) = t"
  "b_size (sample_block t sz y) = sz"
  "b_bold (sample_block t sz y) = False"
  "b_x0 (sample_block t sz y) = 100"
  "b_x1 (sample_block t sz y) = 500"
  "b_y0 (sample_block t sz y) = y"
  "b_page_num (sample_block t sz y) = 1"
  by (simp_all add: sample_block_def)

lemma init_fields:
  "font_thresholds (init\<lparr>body_font_size := bfs\<rparr>) H1 = dbl (7 / 5)"
  "font_thresholds (init\<lparr>body_font_size := bfs\<rparr>) H2 = dbl (6 / 5)"
  "font_thresholds (init\<lparr>body_font_size := bfs\<rparr>) H3 = dbl (21 / 20)"
  "body_font_size (init\<lparr>body_font_size := bfs\<rparr>) = bfs"
  "min_block_length (init\<lparr>body_font_size := bfs\<rparr>) = 3"
  "font_thresholds init H1 = dbl (7 / 5)"
  "font_thresholds init H2 = dbl (6 / 5)"
  "font_thresholds init H3 = dbl (21 / 20)"
  "min_block_length init = 3"
  by (simp_all add: init_def)

lemma get_level_unnumbered:
  assumes "\<not> re_match U rx_three_groups (strip (b_text block))"
    and "\<not> re_match U rx_two_groups (strip (b_text block))"
    and "\<not> re_match U rx_one_group (strip (b_text block))"
  shows "get_level U e block =
      (if fge (size_ratio e block) (Fin (font_thresholds e H1)) then Some H1
       else if fge (size_ratio e block) (Fin (font_thresholds e H2)) then Some H2
       else if fge (size_ratio e block) (Fin (font_thresholds e H3)) \<or> b_bold block
       then Some H3 else None)"
  unfolding get_level_def Let_def using assms by simp

subsection \<open>Title normalization (C1)\<close>

lemma annual_text:
  "strip (ustr ''Annual Annual Report   Report'') = ustr ''Annual Annual Report   Report''"
  "\<not> re_match U rx_list_marker (ustr ''Annual Annual Report   Report'')"
  "lower U (ustr ''Annual Annual Report   Report'') \<notin> boilerplate"
  by (simp_all add: text_evals rx_list_marker_def lower_def latin1_lower_def boilerplate_def)

lemma annual_normal_form:
  "normalize_title U (ustr ''Annual Annual Report   Report'') = ustr ''Annual Report Report''"
  by (simp add: text_evals title_evals)

text \<open>
  C1, as stated, fails. On a one-page document whose only block reads
  \<^verbatim>\<open>"Annual Annual Report   Report"\<close> and passes every acceptance test, the Title
  Selector does not return \<^verbatim>\<open>"Annual Report"\<close>.
\<close>

theorem title_annual_report_counterexample:
  "extract_title latin1_db [sample_page]
     [sample_block (ustr ''Annual Annual Report   Report'') 24 72] \<noteq> Inr (ustr ''Annual Report'')"
  by (simp add: extract_title_def sample_page_def sample_block_sel annual_text annual_normal_form
      fsub_def)
     (simp add: ustr_def)

text \<open>
  C1, amended: the normalization of \<^verbatim>\<open>"Annual Annual Report   Report"\<close> is
  \<^verbatim>\<open>"Annual Report Report"\<close>, and that is the title returned when this text is the
  accepted candidate. The repeated-word pattern joins repetitions that are one space apart
  and runs before the whitespace is collapsed, so the two words \<^verbatim>\<open>Report\<close>, three
  spaces apart, both stay.
\<close>

theorem title_annual_report_normal_form:
  "normalize_title U (ustr ''Annual Annual Report   Report'') = ustr ''Annual Report Report'' \<and>
   extract_title U [sample_page] [sample_block (ustr ''Annual Annual Report   Report'') 24 72]
     = Inr (ustr ''Annual Report Report'')"
  by (simp add: extract_title_def sample_page_def sample_block_sel annual_text annual_normal_form
      fsub_def)
     (simp add: ustr_def)

subsection \<open>Numbering precedence (C2)\<close>

text \<open>
  C2: a block whose trimmed text is exactly \<^verbatim>\<open>"2.1 Background"\<close> is classified as a
  heading and is assigned level H2, whatever the body font size; this holds for every size
  and boldness of the block, so in particular for a non-bold block of the body font size
  (ratio 1.0), where no size rule would apply.
\<close>

theorem numbering_precedence_two_groups:
  assumes "strip (b_text block) = ustr ''2.1 Background''"
  shows "is_heading U (init\<lparr>body_font_size := bfs\<rparr>) block \<and>
         get_level U (init\<lparr>body_font_size := bfs\<rparr>) block = Some H2"
proof -
  have len: "length (ustr ''2.1 Background'') = 14"
    by (simp add: ustr_def)
  have numbered: "re_match U rx_numbered (ustr ''2.1 Background'')"
    by (simp add: text_evals rx_numbered_def)
  have not3: "\<not> re_match U rx_three_groups (ustr ''2.1 Background'')"
    by (simp add: text_evals rx_three_groups_def)
  have two: "re_match U rx_two_groups (ustr ''2.1 Background'')"
    by (simp add: text_evals rx_two_groups_def)
  show ?thesis
    using assms by (simp add: is_heading_def get_level_def init_def len numbered not3 two)
qed

theorem numbering_precedence_two_groups_witness:
  "strip (b_text (sample_block (ustr ''2.1 Background'') 11 200)) = ustr ''2.1 Background'' \<and>
   b_size (sample_block (ustr ''2.1 Background'') 11 200) = 11 \<and>
   \<not> b_bold (sample_block (ustr ''2.1 Background'') 11 200) \<and>
   is_heading latin1_db (init\<lparr>body_font_size := 11\<rparr>) (sample_block (ustr ''2.1 Background'') 11 200) \<and>
   get_level latin1_db (init\<lparr>body_font_size := 11\<rparr>) (sample_block (ustr ''2.1 Background'') 11 200)
     = Some H2"
proof -
  have t: "strip (b_text (sample_block (ustr ''2.1 Background'') 11 200)) = ustr ''2.1 Background''"
    by (simp add: sample_block_sel text_evals)
  show ?thesis
    using numbering_precedence_two_groups [OF t, of latin1_db 11] t
    by (simp add: sample_block_sel)
qed

subsection \<open>Threshold boundaries (C3)\<close>

text \<open>
  C3: for a heading-classified block with no numbering prefix (none of the three numbering
  patterns of the Level Assigner matches) and not bold: if \<open>size / body_font_size\<close>, the
  double that the division returns, is exactly the double \<^verbatim>\<open>1.4\<close>, the level is H1, and
  if it is the double \<^verbatim>\<open>1.39999\<close>, the level is H2. The comparisons are inclusive: a
  ratio \<^verbatim>\<open>>= 1.4\<close> gives H1 and otherwise a ratio \<^verbatim>\<open>>= 1.2\<close> gives H2.
\<close>

theorem threshold_boundaries:
  assumes "is_heading U (init\<lparr>body_font_size := bfs\<rparr>) block"
    and "\<not> re_match U rx_three_groups (strip (b_text block))"
    and "\<not> re_match U rx_two_groups (strip (b_text block))"
    and "\<not> re_match U rx_one_group (strip (b_text block))"
    and "\<not> b_bold block"
  shows "(bfs \<noteq> 0 \<and> rnd (b_size block / bfs) = Fin (dbl 1.4) \<longrightarrow>
            get_level U (init\<lparr>body_font_size := bfs\<rparr>) block = Some H1) \<and>
         (bfs \<noteq> 0 \<and> rnd (b_size block / bfs) = Fin (dbl 1.39999) \<longrightarrow>
            get_level U (init\<lparr>body_font_size := bfs\<rparr>) block = Some H2) \<and>
         (fge (size_ratio (init\<lparr>body_font_size := bfs\<rparr>) block) (Fin (dbl 1.4)) \<longrightarrow>
            get_level U (init\<lparr>body_font_size := bfs\<rparr>) block = Some H1) \<and>
         (\<not> fge (size_ratio (init\<lparr>body_font_size := bfs\<rparr>) block) (Fin (dbl 1.4)) \<and>
          fge (size_ratio (init\<lparr>body_font_size := bfs\<rparr>) block) (Fin (dbl 1.2)) \<longrightarrow>
            get_level U (init\<lparr>body_font_size := bfs\<rparr>) block = Some H2)"
proof -
  define sr where "sr = size_ratio (init\<lparr>body_font_size := bfs\<rparr>) block"
  have gl: "get_level U (init\<lparr>body_font_size := bfs\<rparr>) block =
      (if fge sr (Fin (dbl (7 / 5))) then Some H1
       else if fge sr (Fin (dbl (6 / 5))) then Some H2
       else if fge sr (Fin (dbl (21 / 20))) then Some H3 else None)"
    unfolding get_level_unnumbered[OF assms(2-4)] init_fields sr_def
    using assms(5) by simp
  have q: "sr = rnd (b_size block / bfs)" if "bfs \<noteq> 0"
    using that by (simp add: sr_def size_ratio_def init_fields)
  have a: "get_level U (init\<lparr>body_font_size := bfs\<rparr>) block = Some H1"
    if "bfs \<noteq> 0" "rnd (b_size block / bfs) = Fin (dbl (7 / 5))"
    unfolding gl q[OF that(1)] that(2) by simp
  have b: "get_level U (init\<lparr>body_font_size := bfs\<rparr>) block = Some H2"
    if "bfs \<noteq> 0" "rnd (b_size block / bfs) = Fin (dbl (139999 / 100000))"
    unfolding gl q[OF that(1)] that(2) by (simp add: dbl_literals)
  have c: "get_level U (init\<lparr>body_font_size := bfs\<rparr>) block = Some H1"
    if "fge sr (Fin (dbl (7 / 5)))"
    unfolding gl using that by simp
  have d: "get_level U (init\<lparr>body_font_size := bfs\<rparr>) block = Some H2"
    if "\<not> fge sr (Fin (dbl (7 / 5)))" "fge sr (Fin (dbl (6 / 5)))"
    unfolding gl using that by simp
  from a b c d show ?thesis
    unfolding sr_def by simp
qed

text \<open>
  At body font size 10, size 14 gives the ratio \<^verbatim>\<open>1.4\<close> and the double \<^verbatim>\<open>13.9999\<close>
  gives the ratio \<^verbatim>\<open>1.39999\<close>. At body font size 9 the double \<^verbatim>\<open>12.6\<close> also gives
  the ratio \<^verbatim>\<open>1.4\<close>: the quotient of the two doubles rounds to it.
\<close>

theorem threshold_boundaries_witness:
  "is_heading latin1_db (init\<lparr>body_font_size := 10\<rparr>) (sample_block (ustr ''Summary'') 14 200) \<and>
   get_level latin1_db (init\<lparr>body_font_size := 10\<rparr>) (sample_block (ustr ''Summary'') 14 200)
     = Some H1 \<and>
   is_heading latin1_db (init\<lparr>body_font_size := 10\<rparr>)
     (sample_block (ustr ''Summary'') (dbl 13.9999) 200) \<and>
   get_level latin1_db (init\<lparr>body_font_size := 10\<rparr>)
     (sample_block (ustr ''Summary'') (dbl 13.9999) 200) = Some H2 \<and>
   is_heading latin1_db (init\<lparr>body_font_size := 9\<rparr>)
     (sample_block (ustr ''Summary'') (dbl 12.6) 200) \<and>
   get_level latin1_db (init\<lparr>body_font_size := 9\<rparr>)
     (sample_block (ustr ''Summary'') (dbl 12.6) 200) = Some H1 \<and>
   fge (size_ratio (init\<lparr>body_font_size := 10\<rparr>) (sample_block (ustr ''Summary'') 14 200))
     (Fin (dbl 1.4)) \<and>
   \<not> fge (size_ratio (init\<lparr>body_font_size := 10\<rparr>)
            (sample_block (ustr ''Summary'') (dbl 13.9999) 200)) (Fin (dbl 1.4)) \<and>
   fge (size_ratio (init\<lparr>body_font_size := 10\<rparr>)
         (sample_block (ustr ''Summary'') (dbl 13.9999) 200)) (Fin (dbl 1.2))"
proof -
  have s: "strip (ustr ''Summary'') = ustr ''Summary''"
    by (simp add: text_evals)
  have n3: "\<not> re_match latin1_db rx_three_groups (ustr ''Summary'')"
    by (simp add: text_evals rx_three_groups_def)
  have n2: "\<not> re_match latin1_db rx_two_groups (ustr ''Summary'')"
    by (simp add: text_evals rx_two_groups_def)
  have n1: "\<not> re_match latin1_db rx_one_group (ustr ''Summary'')"
    by (simp add: text_evals rx_one_group_def)
  have len: "length (ustr ''Summary'') = 7"
    by (simp add: ustr_def)
  have h1: "is_heading latin1_db (init\<lparr>body_font_size := 10\<rparr>) (sample_block (ustr ''Summary'') 14 200)"
    by (simp add: is_heading_def sample_block_sel s len init_fields body_threshold)
  have h2: "is_heading latin1_db (init\<lparr>body_font_size := 10\<rparr>)
              (sample_block (ustr ''Summary'') (dbl 13.9999) 200)"
    by (simp add: is_heading_def sample_block_sel s len init_fields body_threshold)
       (simp add: dbl_literals)
  have h3: "is_heading latin1_db (init\<lparr>body_font_size := 9\<rparr>)
              (sample_block (ustr ''Summary'') (dbl 12.6) 200)"
    by (simp add: is_heading_def sample_block_sel s len init_fields body_threshold)
       (simp add: dbl_literals)
  have r1: "rnd (14 / 10) = Fin (dbl 1.4)"
    using ratio_examples(1) by simp
  have r2: "rnd (dbl 13.9999 / 10) = Fin (dbl 1.39999)"
    using ratio_examples(3) by simp
  have r3: "rnd (dbl 12.6 / 9) = Fin (dbl 1.4)"
    using ratio_examples(2) by simp
  have f1: "fge (size_ratio (init\<lparr>body_font_size := 10\<rparr>) (sample_block (ustr ''Summary'') 14 200))
     (Fin (dbl 1.4))"
    using r1 by (simp add: size_ratio_def init_fields sample_block_sel)
  have f2: "\<not> fge (size_ratio (init\<lparr>body_font_size := 10\<rparr>)
            (sample_block (ustr ''Summary'') (dbl 13.9999) 200)) (Fin (dbl 1.4))"
    "fge (size_ratio (init\<lparr>body_font_size := 10\<rparr>)
         (sample_block (ustr ''Summary'') (dbl 13.9999) 200)) (Fin (dbl 1.2))"
    using r2 by (simp_all add: size_ratio_def init_fields sample_block_sel dbl_literals)
  show ?thesis
    using threshold_boundaries [of latin1_db 10 "sample_block (ustr ''Summary'') 14 200", OF h1]
      threshold_boundaries [of latin1_db 10 "sample_block (ustr ''Summary'') (dbl 13.9999) 200", OF h2]
      threshold_boundaries [of latin1_db 9 "sample_block (ustr ''Summary'') (dbl 12.6) 200", OF h3]
      h1 h2 h3 r1 r2 r3 f1 f2
    by (simp add: sample_block_sel s n3 n2 n1)
qed

text \<open>
  More boundaries that the rounding decides: the double \<^verbatim>\<open>12.6\<close> over body font size 12
  has the ratio \<^verbatim>\<open>1.05\<close> and level H3; at the body font size \<^verbatim>\<open>4.2\<close> the size
  \<^verbatim>\<open>4.41\<close> passes the size test of the Heading Classifier; and on a page 612 wide a block
  from \<^verbatim>\<open>170.761\<close> to \<^verbatim>\<open>747.239\<close> passes the centering test of the Title Selector,
  its centre being computed as 459.
\<close>

lemma rounded_centre:
  "half (fadd (Fin (dbl 170.761)) (Fin (dbl 747.239))) = Fin 459"
  "\<not> fgt (fabs (fsub (half (fadd (Fin (dbl 170.761)) (Fin (dbl 747.239)))) (half (Fin 612))))
         (fmul (Fin 612) (Fin (25 / 100)))"
proof -
  have a: "rnd (170761 / 1000) = Fin (6008118562261041 / 2 ^ 45)"
    by (subst rnd_scaled[where k = 45]) (simp_all add: round_half_even_def)
  have b: "rnd (747239 / 1000) = Fin (6572783753821684 / 2 ^ 43)"
    by (subst rnd_scaled[where k = 43]) (simp_all add: round_half_even_def)
  have "rnd (6008118562261041 / 2 ^ 45 + 6572783753821684 / 2 ^ 43) = Fin 918"
    by (subst rnd_scaled[where k = 43]) (simp_all add: round_half_even_def)
  then show c: "half (fadd (Fin (dbl 170.761)) (Fin (dbl 747.239))) = Fin 459"
    by (simp add: dbl_def a b)
  show "\<not> fgt (fabs (fsub (half (fadd (Fin (dbl 170.761)) (Fin (dbl 747.239)))) (half (Fin 612))))
         (fmul (Fin 612) (Fin (25 / 100)))"
    unfolding c by (simp add: fsub_def)
qed

lemma rounded_boundaries:
  "get_level latin1_db (init\<lparr>body_font_size := 12\<rparr>) (sample_block (ustr ''Summary'') (dbl 12.6) 200)
     = Some H3"
  "is_heading latin1_db (init\<lparr>body_font_size := dbl 4.2\<rparr>)
     (sample_block (ustr ''Summary'') (dbl 4.41) 200)"
proof -
  have t: "strip (ustr ''Summary'') = ustr ''Summary''" "length (ustr ''Summary'') = 7"
    "\<not> re_match latin1_db rx_three_groups (ustr ''Summary'')"
    "\<not> re_match latin1_db rx_two_groups (ustr ''Summary'')"
    "\<not> re_match latin1_db rx_one_group (ustr ''Summary'')"
    by (simp_all add: text_evals rx_three_groups_def rx_two_groups_def rx_one_group_def)
  have sr: "size_ratio (init\<lparr>body_font_size := 12\<rparr>)
      (sample_block (ustr ''Summary'') (dbl 12.6) 200) = Fin (dbl (21 / 20))"
    using ratio_examples(4) by (simp add: size_ratio_def init_fields sample_block_sel)
  have n: "\<not> re_match latin1_db rx_three_groups
              (strip (b_text (sample_block (ustr ''Summary'') (dbl 12.6) 200)))"
    "\<not> re_match latin1_db rx_two_groups
       (strip (b_text (sample_block (ustr ''Summary'') (dbl 12.6) 200)))"
    "\<not> re_match latin1_db rx_one_group
       (strip (b_text (sample_block (ustr ''Summary'') (dbl 12.6) 200)))"
    by (simp_all add: sample_block_sel t)
  show "get_level latin1_db (init\<lparr>body_font_size := 12\<rparr>)
      (sample_block (ustr ''Summary'') (dbl 12.6) 200) = Some H3"
    unfolding get_level_unnumbered[OF n] sr init_fields
    by (simp add: dbl_literals)
  show "is_heading latin1_db (init\<lparr>body_font_size := dbl 4.2\<rparr>)
      (sample_block (ustr ''Summary'') (dbl 4.41) 200)"
    using ratio_examples(5)
    by (simp add: is_heading_def t init_fields sample_block_sel)
qed

subsection \<open>The empty document (C4)\<close>

text \<open>
  C4: a document with zero pages is processed without an error; the result is the record
  with title \<^verbatim>\<open>"Document Title"\<close> and an empty outline, and the body font size is set
  to 10.0.
\<close>

theorem empty_document_fallback:
  "process_pdf U e [] =
     Inr (e\<lparr>body_font_size := 10\<rparr>, \<lparr>title = ustr ''Document Title'', outline = []\<rparr>)"
  by (simp add: process_pdf_def analyze_body_font_def font_histogram_def extract_all_blocks_def
      extract_headings_def sorted_headings_def extract_title_def)

subsection \<open>Batch file names (C9)\<close>

text \<open>
  C9 at the file name \<^verbatim>\<open>REPORT.PDF\<close>: the name is selected for processing, and the
  output name computed for it is \<^verbatim>\<open>REPORT.PDF\<close> again, since
  \<^verbatim>\<open>replace(".pdf", ".json")\<close> finds no lower-case \<^verbatim>\<open>.pdf\<close> in it. At
  \<^verbatim>\<open>a.pdf.v2.pdf\<close> every occurrence is replaced, not the final extension alone.
\<close>

theorem batch_output_name_uppercase:
  "is_pdf_name latin1_db (ustr ''REPORT.PDF'') \<and>
   output_name (ustr ''REPORT.PDF'') = ustr ''REPORT.PDF'' \<and>
   process_all_pdfs latin1_db [ustr ''REPORT.PDF''] = [(ustr ''REPORT.PDF'', ustr ''REPORT.PDF'')] \<and>
   output_name (ustr ''a.pdf.v2.pdf'') = ustr ''a.json.v2.json''"
  by (simp add: process_all_pdfs_def is_pdf_name_def output_name_def str_replace_def ustr_def
      lower_def latin1_lower_def suffix_def)

subsection \<open>The matcher and the language of a pattern\<close>

lemma nullable_lang: "nullable r \<longleftrightarrow> [] \<in> lang U r"
  by (induction r) (auto intro: star.intros)

lemma star_cons_iff:
  "c # w \<in> star A \<longleftrightarrow> (\<exists>u v. w = u @ v \<and> c # u \<in> A \<and> v \<in> star A)"
proof
  assume "c # w \<in> star A"
  then show "\<exists>u v. w = u @ v \<and> c # u \<in> A \<and> v \<in> star A"
  proof (induction "c # w" rule: star.induct)
    case (star_more u v)
    show ?case
    proof (cases u)
      case Nil
      with star_more show ?thesis by simp
    next
      case (Cons a u')
      with star_more show ?thesis by auto
    qed
  qed
next
  assume "\<exists>u v. w = u @ v \<and> c # u \<in> A \<and> v \<in> star A"
  then obtain u v where "w = u @ v" "c # u \<in> A" "v \<in> star A" by blast
  then show "c # w \<in> star A"
    using star_more[of "c # u" A v] by simp
qed

lemma deriv_lang: "w \<in> lang U (deriv U c r) \<longleftrightarrow> c # w \<in> lang U r"
proof (induction r arbitrary: w)
  case (Seq r s)
  show ?case
  proof (cases "nullable r")
    case True
    then have n: "[] \<in> lang U r" by (simp add: nullable_lang[of r U])
    show ?thesis
      using True Seq n by (auto simp: Cons_eq_append_conv)
  next
    case False
    then have n: "[] \<notin> lang U r" by (simp add: nullable_lang[of r U])
    show ?thesis
      using False Seq n by (auto simp: Cons_eq_append_conv)
  qed
next
  case (Star r)
  then show ?case by (auto simp: star_cons_iff)
qed auto

lemma re_match_lang: "re_match U r s \<longleftrightarrow> (\<exists>p q. s = p @ q \<and> p \<in> lang U r)"
proof (induction s arbitrary: r)
  case Nil
  then show ?case by (simp add: nullable_lang[of r U])
next
  case (Cons c cs)
  show ?case
  proof
    assume "re_match U r (c # cs)"
    then consider "nullable r" | "re_match U (deriv U c r) cs" by auto
    then show "\<exists>p q. c # cs = p @ q \<and> p \<in> lang U r"
    proof cases
      case 1
      then have "[] \<in> lang U r" by (simp add: nullable_lang[of r U])
      then show ?thesis by (metis append_Nil)
    next
      case 2
      with Cons obtain p q where "cs = p @ q" "p \<in> lang U (deriv U c r)" by blast
      then have "c # cs = (c # p) @ q" "c # p \<in> lang U r" by (simp_all add: deriv_lang)
      then show ?thesis by blast
    qed
  next
    assume "\<exists>p q. c # cs = p @ q \<and> p \<in> lang U r"
    then obtain p q where pq: "c # cs = p @ q" "p \<in> lang U r" by blast
    show "re_match U r (c # cs)"
    proof (cases p)
      case Nil
      with pq have "nullable r" by (simp add: nullable_lang[of r U])
      then show ?thesis by simp
    next
      case (Cons a p')
      with pq have "a = c" "cs = p' @ q" "p' \<in> lang U (deriv U c r)" by (simp_all add: deriv_lang)
      with Cons.IH[of "deriv U c r"] show ?thesis by auto
    qed
  qed
qed

lemma star_digits: "list_all (is_digit U) ds \<Longrightarrow> ds \<in> star (lang U Digit)"
proof (induction ds)
  case Nil
  then show ?case by (simp add: star_empty)
next
  case (Cons d ds)
  then have "[d] \<in> lang U Digit" "ds \<in> star (lang U Digit)" by simp_all
  then have "[d] @ ds \<in> star (lang U Digit)" by (rule star_more)
  then show ?case by simp
qed

lemma star_digits_conv: "ds \<in> star (lang U Digit) \<Longrightarrow> list_all (is_digit U) ds"
  by (induction rule: star.induct) auto

lemma plus_digit_lang:
  "ds \<in> lang U (Plus Digit) \<longleftrightarrow> ds \<noteq> [] \<and> list_all (is_digit U) ds"
proof
  assume "ds \<in> lang U (Plus Digit)"
  then obtain u v where "ds = u @ v" "u \<in> lang U Digit" "v \<in> star (lang U Digit)"
    by auto
  then show "ds \<noteq> [] \<and> list_all (is_digit U) ds"
    using star_digits_conv[of v U] by auto
next
  assume a: "ds \<noteq> [] \<and> list_all (is_digit U) ds"
  then obtain d ds' where ds: "ds = d # ds'" by (cases ds) auto
  with a have "[d] \<in> lang U Digit" "ds' \<in> star (lang U Digit)"
    using star_digits[of U ds'] by simp_all
  then have "[d] @ ds' \<in> lang U (Plus Digit)" by (simp del: append.simps) blast
  with ds show "ds \<in> lang U (Plus Digit)" by simp
qed

lemma list_marker_match:
  assumes "t = ds @ m @ w # rest" and "ds \<noteq> []" and "list_all (is_digit U) ds"
    and "m = [] \<or> m = [41] \<or> m = [46]" and "is_space w"
  shows "re_match U rx_list_marker t"
proof -
  have 1: "ds \<in> lang U (Plus Digit)"
    using assms(2,3) by (simp add: plus_digit_lang del: lang.simps)
  have 2: "m \<in> lang U (Opt (Alt (Lit 41) (Lit 46)))"
    using assms(4) by auto
  have "[w] @ [] \<in> lang U (Plus Space)"
    using assms(5) by (simp del: append.simps) (blast intro: star_empty)
  then have 3: "[w] \<in> lang U (Plus Space)" by simp
  have "ds @ m @ [w] \<in> lang U rx_list_marker"
    unfolding rx_list_marker_def lang.simps(6)[of U "Plus Digit"]
      lang.simps(6)[of U "Opt (Alt (Lit 41) (Lit 46))"]
    using 1 2 3 by blast
  moreover have "t = (ds @ m @ [w]) @ rest" using assms(1) by simp
  ultimately show ?thesis unfolding re_match_lang by blast
qed

subsection \<open>Outline assembly (C5)\<close>




lemma unseen_absorb: "k \<in> seen \<Longrightarrow> unseen U (insert k seen) xs = unseen U seen xs"
  by (simp add: insert_absorb)









text \<open>
  An input with blocks out of order across pages and a repeated heading: the outline comes
  out in reading order, and of the two spellings of the heading on page 1 the upper one stays.
\<close>

lemma heading_words:
  "strip (ustr ''Results'') = ustr ''Results''"
  "strip (ustr ''Methods'') = ustr ''Methods''"
  "strip (ustr ''METHODS'') = ustr ''METHODS''"
  "lower U (ustr ''Results'') = ustr ''results''"
  "lower U (ustr ''Methods'') = ustr ''methods''"
  "lower U (ustr ''METHODS'') = ustr ''methods''"
  "ustr ''results'' \<noteq> ustr ''methods''"
  by (simp_all add: text_evals lower_def latin1_lower_def)

lemma heading_words_level:
  assumes "b_text b \<in> {ustr ''Results'', ustr ''Methods'', ustr ''METHODS''}"
    and "b_size b = 14" and "\<not> b_bold b"
  shows "is_heading U (init\<lparr>body_font_size := 10\<rparr>) b"
    and "get_level U (init\<lparr>body_font_size := 10\<rparr>) b = Some H1"
proof -
  have t: "strip (b_text b) = b_text b" "length (b_text b) = 7"
    "\<not> re_match U rx_three_groups (b_text b)" "\<not> re_match U rx_two_groups (b_text b)"
    "\<not> re_match U rx_one_group (b_text b)"
    using assms(1)
    by (auto simp: text_evals rx_three_groups_def rx_two_groups_def rx_one_group_def)
  show "is_heading U (init\<lparr>body_font_size := 10\<rparr>) b"
    using assms(2) by (simp add: is_heading_def t init_fields body_threshold)
  have "size_ratio (init\<lparr>body_font_size := 10\<rparr>) b = Fin (dbl (7 / 5))"
    using assms(2) ratio_examples(1) by (simp add: size_ratio_def init_fields)
  then show "get_level U (init\<lparr>body_font_size := 10\<rparr>) b = Some H1"
    by (simp add: get_level_def t init_fields)
qed

lemma outline_assembly_example:
  "extract_headings U (init\<lparr>body_font_size := 10\<rparr>)
     [sample_block (ustr ''Results'') 14 50\<lparr>b_page_num := 2\<rparr>,
      sample_block (ustr ''Methods'') 14 200,
      sample_block (ustr ''METHODS'') 14 100]
   = [\<lparr>h_level = H1, h_text = ustr ''METHODS'', h_page = 1, h_y0 = 100\<rparr>,
      \<lparr>h_level = H1, h_text = ustr ''Results'', h_page = 2, h_y0 = 50\<rparr>]"
proof -
  have c: "collect_headings U (init\<lparr>body_font_size := 10\<rparr>)
     [sample_block (ustr ''Results'') 14 50\<lparr>b_page_num := 2\<rparr>,
      sample_block (ustr ''Methods'') 14 200,
      sample_block (ustr ''METHODS'') 14 100]
    = [\<lparr>h_level = H1, h_text = ustr ''Results'', h_page = 2, h_y0 = 50\<rparr>,
       \<lparr>h_level = H1, h_text = ustr ''Methods'', h_page = 1, h_y0 = 200\<rparr>,
       \<lparr>h_level = H1, h_text = ustr ''METHODS'', h_page = 1, h_y0 = 100\<rparr>]"
    by (simp add: heading_words_level sample_block_sel heading_words)
  show ?thesis
    unfolding extract_headings_def sorted_headings_def c
    by (simp add: less_eq_prod_def dedup_key_def heading_words)
qed

subsection \<open>Headings without a level (C8)\<close>

lemma collect_headings_filter:
  "collect_headings U e (filter (\<lambda>b. \<not> (is_heading U e b \<and> get_level U e b = None)) blocks)
     = collect_headings U e blocks"
  by (induction blocks) (auto split: option.splits)

lemma deep_numbering:
  "strip (ustr ''1.2.3.4 Scope'') = ustr ''1.2.3.4 Scope''"
  "length (ustr ''1.2.3.4 Scope'') = 13"
  "re_match U rx_numbered (ustr ''1.2.3.4 Scope'')"
  "\<not> re_match U rx_three_groups (ustr ''1.2.3.4 Scope'')"
  "\<not> re_match U rx_two_groups (ustr ''1.2.3.4 Scope'')"
  "\<not> re_match U rx_one_group (ustr ''1.2.3.4 Scope'')"
  by (simp_all add: text_evals rx_numbered_def rx_three_groups_def rx_two_groups_def rx_one_group_def)

lemma wide_text:
  "strip (ustr ''Note '' @ [8226]) = ustr ''Note '' @ [8226]"
  "length (ustr ''Note '' @ [8226]) = 6"
  "list_ex (\<lambda>c. c > 255) (ustr ''Note '' @ [8226])"
  "\<not> re_match U rx_numbered (ustr ''Note '' @ [8226])"
  "\<not> re_match U rx_three_groups (ustr ''Note '' @ [8226])"
  "\<not> re_match U rx_two_groups (ustr ''Note '' @ [8226])"
  "\<not> re_match U rx_one_group (ustr ''Note '' @ [8226])"
  by (simp_all add: text_evals rx_numbered_def rx_three_groups_def rx_two_groups_def rx_one_group_def)

text \<open>
  C8: there are blocks that the Heading Classifier accepts and to which the Level Assigner
  gives no level. With body font size 10, a non-bold block of size 10 (ratio 1.0) reading
  \<^verbatim>\<open>"1.2.3.4 Scope"\<close> (a four-group numbering prefix) is one, and so is one whose text
  ends in the code point U+2022. Every such block is left out of the outline: removing all
  of them from the input does not change the result of \<open>extract_headings\<close>, which is a
  total function (no error).
\<close>

theorem unleveled_headings_dropped:
  "is_heading U (init\<lparr>body_font_size := 10\<rparr>) (sample_block (ustr ''1.2.3.4 Scope'') 10 200) \<and>
   get_level U (init\<lparr>body_font_size := 10\<rparr>) (sample_block (ustr ''1.2.3.4 Scope'') 10 200) = None \<and>
   is_heading U (init\<lparr>body_font_size := 10\<rparr>) (sample_block (ustr ''Note '' @ [8226]) 10 200) \<and>
   get_level U (init\<lparr>body_font_size := 10\<rparr>) (sample_block (ustr ''Note '' @ [8226]) 10 200) = None \<and>
   extract_headings U e (filter (\<lambda>b. \<not> (is_heading U e b \<and> get_level U e b = None)) blocks)
     = extract_headings U e blocks"
proof -
  have deep: "is_heading U (init\<lparr>body_font_size := 10\<rparr>) (sample_block (ustr ''1.2.3.4 Scope'') 10 200)"
    "get_level U (init\<lparr>body_font_size := 10\<rparr>) (sample_block (ustr ''1.2.3.4 Scope'') 10 200) = None"
    by (simp_all add: is_heading_def get_level_def init_fields sample_block_sel deep_numbering
        size_ratio_def dbl_literals)
  have wide: "is_heading U (init\<lparr>body_font_size := 10\<rparr>) (sample_block (ustr ''Note '' @ [8226]) 10 200)"
    "get_level U (init\<lparr>body_font_size := 10\<rparr>) (sample_block (ustr ''Note '' @ [8226]) 10 200) = None"
    using wide_text
    by (simp_all add: is_heading_def get_level_def init_fields sample_block_sel
        size_ratio_def dbl_literals)
  have drop: "extract_headings U e (filter (\<lambda>b. \<not> (is_heading U e b \<and> get_level U e b = None)) blocks)
     = extract_headings U e blocks"
    by (simp only: extract_headings_def sorted_headings_def collect_headings_filter)
  from deep wide drop show ?thesis by blast
qed


subsection \<open>Numeric markers in the Title Selector (C10)\<close>

text \<open>
  C10: a block whose trimmed text consists of one or more digits, then nothing or
  \<^verbatim>\<open>)\<close> or \<^verbatim>\<open>.\<close>, then a whitespace character, then anything, matches the marker
  pattern of the Title Selector and is skipped by its scan: the scan of the block followed
  by others is the scan of the others. \<^verbatim>\<open>"2024 Annual Review"\<close> is such a text.
\<close>

theorem title_marker_exclusion:
  assumes "strip (b_text b) = ds @ m @ w # rest" and "ds \<noteq> []" and "list_all (is_digit U) ds"
    and "m = [] \<or> m = ustr '')'' \<or> m = ustr ''.''" and "is_space w"
  shows "re_match U rx_list_marker (strip (b_text b)) \<and>
         scan_title U top_size page_width (b # bs) = scan_title U top_size page_width bs"
proof -
  from assms(4) have "m = [] \<or> m = [41] \<or> m = [46]" by (simp add: ustr_def)
  from list_marker_match[OF assms(1-3) this assms(5)]
  show ?thesis by simp
qed

lemma plain_title:
  "strip (ustr ''Quarterly Results'') = ustr ''Quarterly Results''"
  "\<not> re_match U rx_list_marker (ustr ''Quarterly Results'')"
  "lower U (ustr ''Quarterly Results'') \<notin> boilerplate"
  "normalize_title U (ustr ''Quarterly Results'') = ustr ''Quarterly Results''"
  "length (ustr ''Quarterly Results'') = 17"
  by (simp_all add: text_evals title_evals rx_list_marker_def lower_def latin1_lower_def
      boilerplate_def)

theorem title_marker_exclusion_witness:
  "re_match latin1_db rx_list_marker (strip (b_text (sample_block (ustr ''2024 Annual Review'') 30 50))) \<and>
   scan_title latin1_db 30 600 [sample_block (ustr ''2024 Annual Review'') 30 50,
                                sample_block (ustr ''Quarterly Results'') 29 90] = ustr ''Quarterly Results''"
proof -
  have t: "strip (b_text (sample_block (ustr ''2024 Annual Review'') 30 50)) = ustr ''2024'' @ [] @ 32 # ustr ''Annual Review''"
    by (simp add: sample_block_sel text_evals)
  have d: "ustr ''2024'' \<noteq> []" "list_all (is_digit latin1_db) (ustr ''2024'')" "is_space 32"
    by (simp_all add: text_evals)
  have m: "[] = [] \<or> [] = ustr '')'' \<or> [] = ustr ''.''" by simp
  have r: "scan_title latin1_db 30 600 [sample_block (ustr ''Quarterly Results'') 29 90] = ustr ''Quarterly Results''"
    by (simp add: sample_block_sel plain_title fsub_def)
  show ?thesis
    using title_marker_exclusion [OF t d(1) d(2) m d(3), of 30 600 "[sample_block (ustr ''Quarterly Results'') 29 90]"] r
    by simp
qed

subsection \<open>Body-font estimation (C6)\<close>

lemma foldl_count_block:
  "foldl count_block fc bs = foldl (\<lambda>fc k. bump k fc) fc (map (\<lambda>b. round1 (b_size b)) (filter qualifies bs))"
  by (induction bs arbitrary: fc) (simp_all add: count_block_def)

lemma foldl_pages:
  "foldl (\<lambda>fc pg. foldl count_block fc (f pg)) fc pgs = foldl count_block fc (concat (map f pgs))"
  by (induction pgs arbitrary: fc) simp_all

lemma font_histogram_tally: "font_histogram doc = tally (qualifying_keys doc)"
proof -
  have "font_histogram doc =
      foldl count_block [] (concat (map extract_text_blocks (take (min 3 (length doc)) doc)))"
    unfolding font_histogram_def by (rule foldl_pages)
  then show ?thesis
    by (simp only: foldl_count_block tally_def qualifying_keys_def)
qed

lemma first_seen_snoc:
  "first_seen (keys @ [x]) = (if x \<in> set keys then first_seen keys else first_seen keys @ [x])"
  by (simp add: first_seen_def)

lemma first_seen_set [simp]: "set (first_seen keys) = set keys"
  by (simp add: first_seen_def)

lemma first_seen_distinct [simp]: "distinct (first_seen keys)"
  by (simp add: first_seen_def)

lemma bump_map:
  "distinct ys \<Longrightarrow>
   bump x (map (\<lambda>k. (k, c k)) ys) =
     (if x \<in> set ys then map (\<lambda>k. (k, if k = x then c k + 1 else c k)) ys
      else map (\<lambda>k. (k, c k)) ys @ [(x, 1)])"
  by (induction ys) auto

lemma tally_closed_form:
  "tally keys = map (\<lambda>k. (k, count_list keys k)) (first_seen keys)"
proof (induction keys rule: rev_induct)
  case Nil
  then show ?case by (simp add: tally_def first_seen_def)
next
  case (snoc x keys)
  have step: "tally (keys @ [x]) = bump x (tally keys)"
    by (simp add: tally_def)
  show ?case
  proof (cases "x \<in> set keys")
    case True
    then show ?thesis
      unfolding step snoc by (simp add: bump_map first_seen_snoc)
  next
    case False
    then show ?thesis
      unfolding step snoc by (auto simp: bump_map first_seen_snoc)
  qed
qed

lemma takeWhile_all: "m \<notin> set xs \<Longrightarrow> takeWhile (\<lambda>x. x \<noteq> m) xs = xs"
  by (induction xs) auto

lemma takeWhile_snoc_in:
  "m \<in> set xs \<Longrightarrow> takeWhile (\<lambda>x. x \<noteq> m) (xs @ ys) = takeWhile (\<lambda>x. x \<noteq> m) xs"
  by (induction xs) auto

lemma takeWhile_snoc_self:
  "m \<notin> set xs \<Longrightarrow> takeWhile (\<lambda>x. x \<noteq> m) (xs @ [m]) = xs"
  by (induction xs) auto

lemma first_seen_order:
  "set (takeWhile (\<lambda>x. x \<noteq> m) keys) \<subseteq> set (takeWhile (\<lambda>x. x \<noteq> m) (first_seen keys))"
proof (induction keys rule: rev_induct)
  case Nil
  then show ?case by (simp add: first_seen_def)
next
  case (snoc x keys)
  show ?case
  proof (cases "m \<in> set keys")
    case True
    then have "m \<in> set (first_seen keys)" by simp
    then have "takeWhile (\<lambda>x. x \<noteq> m) (first_seen (keys @ [x]))
        = takeWhile (\<lambda>x. x \<noteq> m) (first_seen keys)"
      by (simp add: first_seen_snoc takeWhile_snoc_in)
    with True snoc show ?thesis by (simp add: takeWhile_snoc_in)
  next
    case False
    then have notin: "m \<notin> set (first_seen keys)" by simp
    show ?thesis
    proof (cases "x = m")
      case True
      with False have "takeWhile (\<lambda>x. x \<noteq> m) (keys @ [x]) = keys"
        by (simp add: takeWhile_snoc_self)
      moreover from True False notin
      have "takeWhile (\<lambda>x. x \<noteq> m) (first_seen (keys @ [x])) = first_seen keys"
        by (simp add: first_seen_snoc takeWhile_snoc_self)
      ultimately show ?thesis by (simp only: first_seen_set subset_refl)
    next
      case xm: False
      with False have "m \<notin> set (keys @ [x])" by simp
      then have "takeWhile (\<lambda>x. x \<noteq> m) (keys @ [x]) = keys @ [x]"
        by (rule takeWhile_all)
      moreover from xm False have "m \<notin> set (first_seen (keys @ [x]))" by simp
      then have "takeWhile (\<lambda>x. x \<noteq> m) (first_seen (keys @ [x])) = first_seen (keys @ [x])"
        by (rule takeWhile_all)
      ultimately show ?thesis by (simp only: first_seen_set subset_refl)
    qed
  qed
qed

lemma max_item_member: "max_item best kvs \<in> set (best # kvs)"
  by (induction kvs arbitrary: best) auto

lemma max_item_greatest: "kv \<in> set (best # kvs) \<Longrightarrow> snd kv \<le> snd (max_item best kvs)"
proof (induction kvs arbitrary: best kv)
  case Nil
  then show ?case by simp
next
  case (Cons a kvs)
  have b: "snd b \<le> snd (max_item b kvs)" for b
    using Cons.IH[of b b] by simp
  show ?case
  proof (cases "snd a > snd best")
    case True
    from b[of a] True have "snd best \<le> snd (max_item a kvs)" by simp
    with Cons.prems Cons.IH[of kv a] True show ?thesis by auto
  next
    case False
    from b[of best] False have "snd a \<le> snd (max_item best kvs)" by simp
    with Cons.prems Cons.IH[of kv best] False show ?thesis by auto
  qed
qed

lemma max_item_first:
  "kv \<in> set (takeWhile (\<lambda>x. x \<noteq> max_item best kvs) (best # kvs)) \<Longrightarrow>
   snd kv < snd (max_item best kvs)"
proof (induction kvs arbitrary: best kv)
  case Nil
  then show ?case by simp
next
  case (Cons a kvs)
  show ?case
  proof (cases "snd a > snd best")
    case True
    have "snd a \<le> snd (max_item a kvs)"
      by (rule max_item_greatest) simp
    with True have lt: "snd best < snd (max_item a kvs)" by simp
    then have "best \<noteq> max_item a kvs" by auto
    with Cons.prems True have "kv = best \<or> kv \<in> set (takeWhile (\<lambda>x. x \<noteq> max_item a kvs) (a # kvs))"
      by (simp split: if_splits)
    with lt Cons.IH[of kv a] True show ?thesis by auto
  next
    case False
    show ?thesis
    proof (cases "best = max_item best kvs")
      case True
      with Cons.prems False show ?thesis by simp
    next
      case ne: False
      then have "best \<in> set (takeWhile (\<lambda>x. x \<noteq> max_item best kvs) (best # kvs))" by simp
      from Cons.IH[OF this] have lt: "snd best < snd (max_item best kvs)" .
      with False have alt: "snd a < snd (max_item best kvs)" by simp
      then have "a \<noteq> max_item best kvs" by auto
      with Cons.prems False ne
      have "kv = best \<or> kv = a \<or> kv \<in> set (takeWhile (\<lambda>x. x \<noteq> max_item best kvs) (best # kvs))"
        by (auto split: if_splits)
      with lt alt Cons.IH[of kv best] False show ?thesis by auto
    qed
  qed
qed


lemma tally_max:
  assumes "keys \<noteq> []"
  shows "\<exists>kv kvs. tally keys = kv # kvs \<and>
    fst (max_item kv kvs) \<in> set keys \<and>
    (\<forall>k \<in> set keys. count_list keys k \<le> count_list keys (fst (max_item kv kvs))) \<and>
    (\<forall>k \<in> set (takeWhile (\<lambda>x. x \<noteq> fst (max_item kv kvs)) keys).
           count_list keys k < count_list keys (fst (max_item kv kvs)))"
proof -
  define g where "g = (\<lambda>k. (k, count_list keys k))"
  define ys where "ys = first_seen keys"
  have t: "tally keys = map g ys"
    by (simp add: tally_closed_form g_def ys_def)
  from assms have "set ys \<noteq> {}" by (simp add: ys_def)
  then obtain y ys' where ys: "ys = y # ys'" by (cases ys) auto
  define r where "r = max_item (g y) (map g ys')"
  have tl: "tally keys = g y # map g ys'" by (simp add: t ys)
  have "r \<in> set (g y # map g ys')" unfolding r_def by (rule max_item_member)
  then have "r \<in> g ` set ys" by (simp add: ys)
  then obtain m where m: "m \<in> set ys" "r = g m" by blast
  have fr: "fst r = m" "snd r = count_list keys m" by (simp_all add: m(2) g_def)
  have mem: "fst r \<in> set keys" using m(1) fr(1) by (simp add: ys_def)
  have great: "count_list keys k \<le> count_list keys (fst r)" if "k \<in> set keys" for k
  proof -
    from that have "k \<in> set ys" by (simp add: ys_def)
    then have "g k \<in> g ` set ys" by (rule imageI)
    then have "g k \<in> set (g y # map g ys')" by (simp add: ys)
    from max_item_greatest[OF this] have "snd (g k) \<le> snd r" by (simp add: r_def)
    then show ?thesis by (simp add: g_def fr)
  qed
  have first: "count_list keys k < count_list keys (fst r)"
    if "k \<in> set (takeWhile (\<lambda>x. x \<noteq> fst r) keys)" for k
  proof -
    from that first_seen_order[of m keys] have "k \<in> set (takeWhile (\<lambda>x. x \<noteq> m) ys)"
      by (auto simp: fr ys_def)
    then have "g k \<in> g ` set (takeWhile (\<lambda>x. x \<noteq> m) ys)" by (rule imageI)
    moreover have "(\<lambda>x. x \<noteq> r) \<circ> g = (\<lambda>x. x \<noteq> m)"
      by (auto simp: fun_eq_iff m(2) g_def)
    ultimately have "g k \<in> set (takeWhile (\<lambda>x. x \<noteq> r) (map g ys))"
      by (simp add: takeWhile_map)
    then have "g k \<in> set (takeWhile (\<lambda>x. x \<noteq> max_item (g y) (map g ys')) (g y # map g ys'))"
      by (simp only: r_def ys list.map)
    from max_item_first[OF this] have "snd (g k) < snd r" by (simp add: r_def)
    then show ?thesis by (simp add: g_def fr)
  qed
  from tl mem great first show ?thesis unfolding r_def by blast
qed

text \<open>
  C6: let the keys be the sizes, rounded to one decimal place, of the blocks of the first
  \<open>min 3 (length doc)\<close> pages with more than 5 characters of text and not bold, in the order
  of accumulation. If there is none, the body font size is 10.0. Otherwise it is one of the
  keys, no key occurs more often, and every key met before its first occurrence occurs
  strictly less often (a tie goes to the key met first). In particular, when 11.0 occurs 12
  times and 9.0 occurs 5 times and there is no other key, the body font size is 11.0.
\<close>

theorem body_font_estimation:
  "(qualifying_keys doc = [] \<longrightarrow> body_font_size (analyze_body_font e doc) = 10) \<and>
   (qualifying_keys doc \<noteq> [] \<longrightarrow>
      body_font_size (analyze_body_font e doc) \<in> set (qualifying_keys doc) \<and>
      (\<forall>k \<in> set (qualifying_keys doc).
         count_list (qualifying_keys doc) k
           \<le> count_list (qualifying_keys doc) (body_font_size (analyze_body_font e doc))) \<and>
      (\<forall>k \<in> set (takeWhile (\<lambda>x. x \<noteq> body_font_size (analyze_body_font e doc))
                       (qualifying_keys doc)).
         count_list (qualifying_keys doc) k
           < count_list (qualifying_keys doc) (body_font_size (analyze_body_font e doc)))) \<and>
   (count_list (qualifying_keys doc) 11 = 12 \<and> count_list (qualifying_keys doc) 9 = 5 \<and>
    set (qualifying_keys doc) \<subseteq> {11, 9} \<longrightarrow>
      body_font_size (analyze_body_font e doc) = 11)"
proof -
  define keys where "keys = qualifying_keys doc"
  define body where "body = body_font_size (analyze_body_font e doc)"
  have empty: "body = 10" if "keys = []"
    using that by (simp add: body_def analyze_body_font_def font_histogram_tally keys_def[symmetric] tally_def)
  have nonempty: "body \<in> set keys \<and>
      (\<forall>k \<in> set keys. count_list keys k \<le> count_list keys body) \<and>
      (\<forall>k \<in> set (takeWhile (\<lambda>x. x \<noteq> body) keys). count_list keys k < count_list keys body)"
    if "keys \<noteq> []"
  proof -
    from tally_max[OF that] obtain kv kvs where t: "tally keys = kv # kvs"
      and 1: "fst (max_item kv kvs) \<in> set keys"
      and 2: "\<forall>k \<in> set keys. count_list keys k \<le> count_list keys (fst (max_item kv kvs))"
      and 3: "\<forall>k \<in> set (takeWhile (\<lambda>x. x \<noteq> fst (max_item kv kvs)) keys).
           count_list keys k < count_list keys (fst (max_item kv kvs))"
      by blast
    have "body = fst (max_item kv kvs)"
      by (simp add: body_def analyze_body_font_def font_histogram_tally keys_def[symmetric] t)
    with 1 2 3 show ?thesis by simp
  qed
  have sample: "body = 11"
    if "count_list keys 11 = 12" "count_list keys 9 = 5" "set keys \<subseteq> {11, 9}"
  proof -
    from that(1) have "keys \<noteq> []" by auto
    from nonempty[OF this] have b: "body \<in> set keys"
      "\<forall>k \<in> set keys. count_list keys k \<le> count_list keys body" by simp_all
    have "11 \<in> set keys"
    proof (rule ccontr)
      assume "11 \<notin> set keys"
      then have "count_list keys 11 = 0" by (simp add: count_list_0_iff)
      with that(1) show False by simp
    qed
    with b(2) that(1) have "12 \<le> count_list keys body" by auto
    moreover from b(1) that(3) have "body = 11 \<or> body = 9" by auto
    ultimately show ?thesis using that(2) by auto
  qed
  from empty nonempty sample show ?thesis
    unfolding keys_def body_def by blast
qed


lemma sample_line_block:
  "line_blocks pg [sample_span (ustr ''Body text'') sz] =
     [\<lparr>b_text = ustr ''Body text'', b_size = sz, b_font = ustr ''Helvetica'', b_bold = False,
       b_x0 = 100, b_y0 = 72, b_x1 = 500, b_y1 = 90, b_page_num = p_number pg + 1\<rparr>]"
  by (simp add: line_blocks_def sample_span_def ustr_def strip_def is_space_def)

lemma sample_text_page_keys:
  "map (\<lambda>b. round1 (b_size b)) (filter qualifies (extract_text_blocks (sample_text_page n sizes)))
     = map round1 sizes"
proof -
  have "extract_text_blocks (sample_text_page n sizes) =
      map (\<lambda>sz. \<lparr>b_text = ustr ''Body text'', b_size = sz, b_font = ustr ''Helvetica'',
             b_bold = False, b_x0 = 100, b_y0 = 72, b_x1 = 500, b_y1 = 90, b_page_num = n + 1\<rparr>) sizes"
    by (simp add: extract_text_blocks_def sample_text_page_def comp_def sample_line_block)
  moreover have "qualifies \<lparr>b_text = ustr ''Body text'', b_size = sz, b_font = ustr ''Helvetica'',
             b_bold = False, b_x0 = 100, b_y0 = 72, b_x1 = 500, b_y1 = 90, b_page_num = n + 1\<rparr>" for sz
    by (simp add: qualifies_def ustr_def)
  ultimately show ?thesis by (simp add: comp_def)
qed

lemma round1_9_11: "round1 9 = 9" "round1 11 = 11"
proof -
  have "real_of_int (round_half_even 90) = 90" "real_of_int (round_half_even 110) = 110"
    using rhe_int[of 90] rhe_int[of 110] by simp_all
  then show "round1 9 = 9" "round1 11 = 11"
    by (simp_all add: round1_def dbl_def)
qed

lemma keys_tie: "qualifying_keys [sample_text_page 0 [9, 11, 11, 9]] = [9, 11, 11, 9]"
  by (simp add: qualifying_keys_def sample_text_page_keys round1_9_11)

lemma keys_sample:
  "qualifying_keys [sample_text_page 0 [11, 11, 11, 11, 9, 9], sample_text_page 1 [9, 11, 11, 11, 11, 9],
      sample_text_page 2 [11, 11, 11, 9, 11], sample_text_page 3 [9, 9, 9, 9, 9, 9, 9, 9, 9]]
   = [11, 11, 11, 11, 9, 9, 9, 11, 11, 11, 11, 9, 11, 11, 11, 9, 11]"
  by (simp add: qualifying_keys_def sample_text_page_keys round1_9_11)

theorem body_font_estimation_witness:
  "body_font_size (analyze_body_font init []) = 10 \<and>
   body_font_size (analyze_body_font init [sample_text_page 0 [9, 11, 11, 9]]) = 9 \<and>
   body_font_size (analyze_body_font init
     [sample_text_page 0 [11, 11, 11, 11, 9, 9], sample_text_page 1 [9, 11, 11, 11, 11, 9],
      sample_text_page 2 [11, 11, 11, 9, 11], sample_text_page 3 [9, 9, 9, 9, 9, 9, 9, 9, 9]]) = 11"
proof -
  have e: "qualifying_keys [] = []" by (simp add: qualifying_keys_def)
  have 1: "body_font_size (analyze_body_font init []) = 10"
    using body_font_estimation [of "[]" init] e by simp
  have 2: "body_font_size (analyze_body_font init [sample_text_page 0 [9, 11, 11, 9]]) = 9"
    using body_font_estimation [of "[sample_text_page 0 [9, 11, 11, 9]]" init]
    unfolding keys_tie by (auto split: if_splits)
  have 3: "body_font_size (analyze_body_font init
     [sample_text_page 0 [11, 11, 11, 11, 9, 9], sample_text_page 1 [9, 11, 11, 11, 11, 9],
      sample_text_page 2 [11, 11, 11, 9, 11], sample_text_page 3 [9, 9, 9, 9, 9, 9, 9, 9, 9]]) = 11"
    using body_font_estimation [of "[sample_text_page 0 [11, 11, 11, 11, 9, 9], sample_text_page 1 [9, 11, 11, 11, 11, 9],
      sample_text_page 2 [11, 11, 11, 9, 11], sample_text_page 3 [9, 9, 9, 9, 9, 9, 9, 9, 9]]" init]
    unfolding keys_sample by simp
  from 1 2 3 show ?thesis by blast
qed


subsection \<open>Title candidacy (C7)\<close>

lemma scan_title_find:
  "scan_title U top_size page_width bs =
     (case find (acceptable U top_size page_width) bs of
        None \<Rightarrow> ustr ''Document Title'' | Some b \<Rightarrow> title_of U b)"
  by (induction bs) (auto simp: acceptable_def title_of_def Let_def)

lemma collapse_ws_head:
  assumes "collapse_ws s = c # r"
  shows "\<exists>d s'. s = d # s' \<and> (is_space d \<longleftrightarrow> is_space c) \<and>
           (\<not> is_space c \<longrightarrow> d = c \<and> collapse_ws s' = r)"
proof (cases s)
  case Nil
  with assms show ?thesis by simp
next
  case (Cons d s')
  have sp: "is_space 32" by (simp add: is_space_def)
  from assms Cons sp show ?thesis
    by (auto split: if_splits)
qed

lemma try_words_Some:
  "try_words U n s = Some (w, rest) \<Longrightarrow>
   \<exists>k<n. w = take (Suc k) s \<and> one_rep U w (drop (Suc k) s) \<noteq> None"
proof (induction n)
  case 0
  then show ?case by simp
next
  case (Suc n)
  show ?case
  proof (cases "one_rep U (take (Suc n) s) (drop (Suc n) s)")
    case None
    with Suc.prems have "try_words U n s = Some (w, rest)" by simp
    from Suc.IH[OF this] show ?thesis by (auto intro: less_SucI)
  next
    case (Some s')
    with Suc.prems have "w = take (Suc n) s" by auto
    with Some show ?thesis by auto
  qed
qed

lemma repeated_word_at_Some:
  assumes "repeated_word_at U prev s = Some (w, rest)"
  shows "w \<noteq> [] \<and> (\<forall>c \<in> set w. is_word U c) \<and> prefix (w @ 32 # w) s"
proof -
  let ?n = "length (takeWhile (is_word U) s)"
  from assms have tw: "try_words U ?n s = Some (w, rest)"
    by (simp add: repeated_word_at_def split: if_splits)
  from try_words_Some[OF tw] obtain k where k: "k < ?n" "w = take (Suc k) s"
      "one_rep U w (drop (Suc k) s) \<noteq> None" by blast
  from k(3) have p: "prefix (32 # w) (drop (Suc k) s)"
    by (simp add: one_rep_def split: if_splits)
  then obtain zs where zs: "drop (Suc k) s = (32 # w) @ zs" by (auto simp: prefix_def)
  have "s = take (Suc k) s @ drop (Suc k) s" by simp
  with k(2) zs have "s = (w @ 32 # w) @ zs" by simp
  then have 3: "prefix (w @ 32 # w) s" unfolding prefix_def by blast
  from k(1) have "s \<noteq> []" by auto
  with k(2) have 1: "w \<noteq> []" by (cases s) auto
  have "set w \<subseteq> set (take ?n s)"
    unfolding k(2) using k(1) by (intro set_take_subset_set_take) simp
  also have "take ?n s = takeWhile (is_word U) s"
    by (rule takeWhile_eq_take[symmetric])
  finally have 2: "\<forall>c \<in> set w. is_word U c"
    by (auto dest: set_takeWhileD)
  from 1 2 3 show ?thesis by blast
qed

lemma sub_repeated_head:
  "sub_repeated U prev (c # cs) = d # r \<Longrightarrow> d = c"
proof (cases "repeated_word_at U prev (c # cs)")
  case None
  assume "sub_repeated U prev (c # cs) = d # r"
  with None show ?thesis by simp
next
  case (Some a)
  assume a: "sub_repeated U prev (c # cs) = d # r"
  obtain w rest where wr: "a = (w, rest)" by (cases a)
  from repeated_word_at_Some[OF Some[unfolded wr]] obtain w' where "w = c # w'"
    by (cases w) (auto simp: prefix_def)
  with a Some wr show ?thesis by simp
qed

lemma intro_needs_marker:
  assumes "normalize_title U t = 49 # 41 # 32 # r"
  shows "re_match U rx_list_marker t"
proof -
  define u where "u = sub_repeated U None t"
  have sp: "\<not> is_space 49" "\<not> is_space 41" "is_space 32" by (simp_all add: is_space_def)
  have wd: "is_word U 49" "\<not> is_word U 41" "\<not> is_word U 32" by (simp_all add: is_word_def)
  have dg: "list_all (is_digit U) [49]" by (simp add: is_digit_def)
  from assms have "collapse_ws u = 49 # 41 # 32 # r" by (simp add: normalize_title_def u_def)
  from collapse_ws_head[OF this] sp(1) obtain u1 where u1: "u = 49 # u1" "collapse_ws u1 = 41 # 32 # r"
    by auto
  from collapse_ws_head[OF u1(2)] sp(2) obtain u2 where u2: "u1 = 41 # u2" "collapse_ws u2 = 32 # r"
    by auto
  from collapse_ws_head[OF u2(2)] sp(3) obtain d u3 where u3: "u2 = d # u3" "is_space d"
    by auto
  have u: "sub_repeated U None t = 49 # 41 # d # u3" using u1(1) u2(1) u3(1) by (simp add: u_def)
  then obtain c cs where t: "t = c # cs" by (cases t) auto
  from sub_repeated_head[OF u[unfolded t]] have c: "c = 49" by simp
  show ?thesis
  proof (cases "repeated_word_at U None t")
    case (Some a)
    obtain w rest where wr: "a = (w, rest)" by (cases a)
    from repeated_word_at_Some[OF Some[unfolded wr]]
    have w: "w \<noteq> []" "\<forall>c \<in> set w. is_word U c" "prefix (w @ 32 # w) t" by simp_all
    from u Some wr t have uw: "w @ sub_repeated U (Some (last (c # w))) rest = 49 # 41 # d # u3" by simp
    from w(1) obtain w1 w' where w1: "w = w1 # w'" by (cases w) auto
    have "w' = []"
    proof (rule ccontr)
      assume "w' \<noteq> []"
      then obtain w2 w'' where "w' = w2 # w''" by (cases w') auto
      with uw w1 have "w2 = 41" by simp
      with w(2) w1 \<open>w' = w2 # w''\<close> wd(2) show False by simp
    qed
    with uw w1 have "w = [49]" by simp
    with w(3) obtain zs where "t = [49] @ [] @ 32 # (49 # zs)" by (auto simp: prefix_def)
    from list_marker_match[OF this _ dg _ sp(3)] show ?thesis by simp
  next
    case None
    with u t c have r1: "sub_repeated U (Some 49) cs = 41 # d # u3" by simp
    then obtain c2 cs2 where cs: "cs = c2 # cs2" by (cases cs) auto
    from sub_repeated_head[OF r1[unfolded cs]] have c2: "c2 = 41" by simp
    have "repeated_word_at U (Some 49) (41 # cs2) = None"
    proof (cases "repeated_word_at U (Some 49) (41 # cs2)")
      case (Some a)
      obtain w rest where "a = (w, rest)" by (cases a)
      from repeated_word_at_Some[OF Some[unfolded this]] wd(2) show ?thesis
        by (cases w) (auto simp: prefix_def)
    qed simp
    with r1 cs c2 have r2: "sub_repeated U (Some 41) cs2 = d # u3" by simp
    then obtain c3 cs3 where cs2: "cs2 = c3 # cs3" by (cases cs2) auto
    from sub_repeated_head[OF r2[unfolded cs2]] have "c3 = d" by simp
    with t c cs c2 cs2 have "t = [49] @ [41] @ d # cs3" by simp
    from list_marker_match[OF this _ dg _ u3(2)] show ?thesis by simp
  qed
qed


lemma intro_text:
  "ustr ''1) Introduction'' = 49 # 41 # 32 # ustr ''Introduction''"
  "re_match U rx_list_marker (ustr ''1) Introduction'')"
  "ustr ''Document Title'' \<noteq> ustr ''1) Introduction''"
  by (simp_all add: text_evals rx_list_marker_def)

lemma title_of_not_intro:
  assumes "acceptable U top_size page_width c"
  shows "title_of U c \<noteq> ustr ''1) Introduction''"
proof
  assume eq: "title_of U c = ustr ''1) Introduction''"
  have "normalize_title U (strip (b_text c)) = ustr ''1) Introduction''"
  proof (cases "length (normalize_title U (strip (b_text c))) > 5")
    case True
    with eq show ?thesis by (simp add: title_of_def Let_def)
  next
    case False
    with eq have "ustr ''Document Title'' = ustr ''1) Introduction''"
      by (simp add: title_of_def Let_def)
    with intro_text(3) show ?thesis by simp
  qed
  then have "normalize_title U (strip (b_text c)) = 49 # 41 # 32 # ustr ''Introduction''"
    by (simp only: intro_text(1))
  then have "re_match U rx_list_marker (strip (b_text c))" by (rule intro_needs_marker)
  with assms show False by (simp add: acceptable_def)
qed

lemma short_title:
  "strip (ustr ''Intro'') = ustr ''Intro''"
  "\<not> re_match U rx_list_marker (ustr ''Intro'')"
  "lower U (ustr ''Intro'') \<notin> boilerplate"
  "normalize_title U (ustr ''Intro'') = ustr ''Intro''"
  "length (ustr ''Intro'') = 5"
  by (simp_all add: text_evals title_evals rx_list_marker_def lower_def latin1_lower_def
      boilerplate_def)

lemma intro_triple_sorted:
  "sort_key (\<lambda>b. (- b_size b, b_y0 b))
     (filter (\<lambda>b. b_page_num b = 1)
        [sample_block (ustr ''1) Introduction'') 30 120, sample_block (ustr ''Intro'') 29 150,
         sample_block (ustr ''Quarterly Results'') 28 180])
   = [sample_block (ustr ''1) Introduction'') 30 120, sample_block (ustr ''Intro'') 29 150,
      sample_block (ustr ''Quarterly Results'') 28 180]"
  by (simp add: sample_block_sel less_eq_prod_def)

text \<open>
  C7, as stated, fails. On a page whose blocks are \<^verbatim>\<open>"1) Introduction"\<close> (size 30),
  \<^verbatim>\<open>"Intro"\<close> (size 29) and \<^verbatim>\<open>"Quarterly Results"\<close> (size 28), both later blocks
  satisfy all acceptance conditions and \<^verbatim>\<open>"Intro"\<close> is the first of them, but the Title
  Selector returns \<^verbatim>\<open>"Document Title"\<close>, the text of neither.
\<close>

theorem title_candidacy_counterexample:
  "acceptable latin1_db 30 600 (sample_block (ustr ''Intro'') 29 150) \<and>
   acceptable latin1_db 30 600 (sample_block (ustr ''Quarterly Results'') 28 180) \<and>
   extract_title latin1_db [sample_page]
     [sample_block (ustr ''1) Introduction'') 30 120, sample_block (ustr ''Intro'') 29 150,
      sample_block (ustr ''Quarterly Results'') 28 180]
     = Inr (ustr ''Document Title'') \<and>
   ustr ''Document Title'' \<noteq> ustr ''Intro'' \<and>
   ustr ''Document Title'' \<noteq> ustr ''Quarterly Results''"
proof -
  have m: "re_match latin1_db rx_list_marker (strip (ustr ''1) Introduction''))"
    by (simp add: text_evals rx_list_marker_def)
  have a1: "acceptable latin1_db 30 600 (sample_block (ustr ''Intro'') 29 150)"
    by (simp add: acceptable_def sample_block_sel short_title fsub_def)
  have a2: "acceptable latin1_db 30 600 (sample_block (ustr ''Quarterly Results'') 28 180)"
    by (simp add: acceptable_def sample_block_sel plain_title fsub_def)
  have "scan_title latin1_db 30 600
      [sample_block (ustr ''1) Introduction'') 30 120, sample_block (ustr ''Intro'') 29 150,
       sample_block (ustr ''Quarterly Results'') 28 180] = ustr ''Document Title''"
    using m by (simp add: sample_block_sel short_title fsub_def)
  then have e: "extract_title latin1_db [sample_page]
     [sample_block (ustr ''1) Introduction'') 30 120, sample_block (ustr ''Intro'') 29 150,
      sample_block (ustr ''Quarterly Results'') 28 180] = Inr (ustr ''Document Title'')"
    using intro_triple_sorted
    by (simp add: extract_title_def Let_def sample_page_def sample_block_sel
        del: scan_title.simps)
  have n: "ustr ''Document Title'' \<noteq> ustr ''Intro''"
    "ustr ''Document Title'' \<noteq> ustr ''Quarterly Results''"
    by (simp_all add: ustr_def)
  from a1 a2 e n show ?thesis by blast
qed

text \<open>
  C7, amended: let the page-1 blocks, sorted by (descending size, ascending y0), start with a
  block \<open>b0\<close> whose trimmed text is \<^verbatim>\<open>"1) Introduction"\<close>. Then \<open>b0\<close> fails the
  acceptance conditions; the scan goes on in that order and stops at the first block after
  \<open>b0\<close> that satisfies all acceptance conditions, returning its normalized text when this
  has more than 5 characters and \<^verbatim>\<open>"Document Title"\<close> otherwise; it returns
  \<^verbatim>\<open>"Document Title"\<close> when there is no such block; and the string it returns is never
  \<^verbatim>\<open>"1) Introduction"\<close>.
\<close>

theorem title_candidacy_exclusion:
  assumes "sort_key (\<lambda>b. (- b_size b, b_y0 b)) (filter (\<lambda>b. b_page_num b = 1) blocks) = b0 # rest"
    and "strip (b_text b0) = ustr ''1) Introduction''"
  shows "\<not> acceptable U (b_size b0) (p_rect_width p0) b0 \<and>
         extract_title U (p0 # ps) blocks =
           Inr (case find (acceptable U (b_size b0) (p_rect_width p0)) rest of
                  None \<Rightarrow> ustr ''Document Title'' | Some c \<Rightarrow> title_of U c) \<and>
         extract_title U (p0 # ps) blocks \<noteq> Inr (ustr ''1) Introduction'')"
proof -
  let ?P = "acceptable U (b_size b0) (p_rect_width p0)"
  have no: "\<not> ?P b0"
    using assms(2) intro_text(2)[of U] by (simp add: acceptable_def)
  have ne: "filter (\<lambda>b. b_page_num b = 1) blocks \<noteq> []"
  proof
    assume "filter (\<lambda>b. b_page_num b = 1) blocks = []"
    with assms(1) show False by simp
  qed
  have "extract_title U (p0 # ps) blocks = Inr (scan_title U (b_size b0) (p_rect_width p0) (b0 # rest))"
    using ne assms(1) by (simp add: extract_title_def Let_def del: scan_title.simps)
  also have "scan_title U (b_size b0) (p_rect_width p0) (b0 # rest) =
      (case find ?P rest of None \<Rightarrow> ustr ''Document Title'' | Some c \<Rightarrow> title_of U c)"
    using no by (simp add: scan_title_find)
  finally have res: "extract_title U (p0 # ps) blocks =
      Inr (case find ?P rest of None \<Rightarrow> ustr ''Document Title'' | Some c \<Rightarrow> title_of U c)" .
  have "(case find ?P rest of None \<Rightarrow> ustr ''Document Title'' | Some c \<Rightarrow> title_of U c)
      \<noteq> ustr ''1) Introduction''"
  proof (cases "find ?P rest")
    case None
    then show ?thesis using intro_text(3) by simp
  next
    case (Some c)
    then have "?P c" by (auto simp: find_Some_iff)
    from title_of_not_intro[OF this] Some show ?thesis by simp
  qed
  with res no show ?thesis by simp
qed

lemma intro_pair_sorted:
  "sort_key (\<lambda>b. (- b_size b, b_y0 b))
     (filter (\<lambda>b. b_page_num b = 1)
        [sample_block (ustr ''Quarterly Results'') 29 90, sample_block (ustr ''1) Introduction'') 30 120])
   = [sample_block (ustr ''1) Introduction'') 30 120, sample_block (ustr ''Quarterly Results'') 29 90]"
  by (simp add: sample_block_sel less_eq_prod_def)

theorem title_candidacy_exclusion_witness:
  "extract_title latin1_db [sample_page]
     [sample_block (ustr ''Quarterly Results'') 29 90, sample_block (ustr ''1) Introduction'') 30 120]
   = Inr (ustr ''Quarterly Results'')"
proof -
  have t: "strip (b_text (sample_block (ustr ''1) Introduction'') 30 120)) = ustr ''1) Introduction''"
    by (simp add: sample_block_sel text_evals)
  have a: "acceptable latin1_db 30 600 (sample_block (ustr ''Quarterly Results'') 29 90)"
    by (simp add: acceptable_def sample_block_sel plain_title fsub_def)
  have "title_of latin1_db (sample_block (ustr ''Quarterly Results'') 29 90) = ustr ''Quarterly Results''"
    by (simp add: title_of_def sample_block_sel plain_title)
  with a title_candidacy_exclusion [OF intro_pair_sorted t, of latin1_db sample_page "[]"]
  show ?thesis by (simp add: sample_block_sel sample_page_def)
qed


end
